theory Spec2Isabelle
  imports Main
begin

section \<open>Python preliminaries\<close>

text \<open>
  Python strings are modelled as \<open>string\<close> (lists of \<open>char\<close>), one \<open>char\<close> per
  code point, which covers the code points below 256. \<open>len\<close> is \<open>length\<close>. Python
  integers are \<open>int\<close>. Exceptions are values of \<open>py_error\<close>; a function that can
  raise returns \<open>py_error + 'a\<close> with \<open>Inl\<close> for the raised exception.
\<close>

datatype py_error =
    KeyError
  | ValueError
  | AttributeError
  | TypeError
  | RecursionError
  | LLMError string

text \<open>\<open>s * n\<close> on a string: the empty string when \<open>n \<le> 0\<close>.\<close>

definition str_mul :: "string \<Rightarrow> int \<Rightarrow> string" where
  "str_mul s n = concat (replicate (nat n) s)"

text \<open>\<open>sep.join(xs)\<close>.\<close>

fun str_join :: "string \<Rightarrow> string list \<Rightarrow> string" where
  "str_join sep [] = []"
| "str_join sep [x] = x"
| "str_join sep (x # y # ys) = x @ sep @ str_join sep (y # ys)"

text \<open>\<open>s.split(c)\<close> for a separator of one character: never the empty list.\<close>

fun str_split :: "char \<Rightarrow> string \<Rightarrow> string list" where
  "str_split c [] = [[]]"
| "str_split c (x # xs) =
     (let r = str_split c xs
      in if x = c then [] # r else (x # hd r) # tl r)"

definition newline :: char where
  "newline = CHR 0x0A"

text \<open>\<open>max(...)\<close> over an iterable of integers: ValueError on the empty one.\<close>

fun py_max :: "int list \<Rightarrow> py_error + int" where
  "py_max [] = Inl ValueError"
| "py_max (x # xs) = Inr (fold max xs x)"

text \<open>\<open>enumerate(xs, start)\<close>.\<close>

fun enumerate_from :: "int \<Rightarrow> 'a list \<Rightarrow> (int \<times> 'a) list" where
  "enumerate_from i [] = []"
| "enumerate_from i (x # xs) = (i, x) # enumerate_from (i + 1) xs"

text \<open>The printable ASCII characters, space to tilde.\<close>

definition printable :: "char \<Rightarrow> bool" where
  "printable c = ((32::nat) \<le> of_char c \<and> of_char c \<le> (126::nat))"

section \<open>Diagram layout engine (diagram\_service.py)\<close>

text \<open>\<open>DiagramService.create_ascii_box(text, width=None)\<close>.\<close>

definition create_ascii_box :: "string \<Rightarrow> int option \<Rightarrow> string list" where
  "create_ascii_box text width =
     (let width0 = (case width of None \<Rightarrow> int (length text) + 4 | Some w \<Rightarrow> w);
          width1 = max width0 (int (length text) + 4);
          padding = (width1 - 2 - int (length text)) div 2;
          padded_text = str_mul '' '' padding @ text
                        @ str_mul '' '' (width1 - 2 - int (length text) - padding);
          top_line = ''+'' @ str_mul ''-'' (width1 - 2) @ ''+'';
          middle_line = ''|'' @ padded_text @ ''|'';
          bottom_line = ''+'' @ str_mul ''-'' (width1 - 2) @ ''+''
      in [top_line, middle_line, bottom_line])"

text \<open>\<open>DiagramService.create_vertical_arrow(width)\<close>.\<close>

definition create_vertical_arrow :: "int \<Rightarrow> string list" where
  "create_vertical_arrow width =
     (let center = (width - 1) div 2;
          spaces = str_mul '' '' center
      in [spaces @ ''|'', spaces @ ''v''])"

text \<open>
  The loop of \<open>create_box_diagram\<close> over \<open>enumerate(components)\<close>: \<open>n\<close> is
  \<open>len(components)\<close>, the last argument is \<open>diagram_lines\<close>.
\<close>

fun box_loop :: "(int \<times> string) list \<Rightarrow> int \<Rightarrow> int \<Rightarrow> string list \<Rightarrow> string list" where
  "box_loop [] n max_width diagram_lines = diagram_lines"
| "box_loop ((i, component) # rest) n max_width diagram_lines =
     (let box_lines = create_ascii_box component (Some max_width);
          diagram_lines1 = diagram_lines @ box_lines;
          diagram_lines2 =
            (if i < n - 1 then diagram_lines1 @ create_vertical_arrow max_width
             else diagram_lines1)
      in box_loop rest n max_width diagram_lines2)"

text \<open>\<open>DiagramService.create_box_diagram(components)\<close>.\<close>

definition create_box_diagram :: "string list \<Rightarrow> py_error + string" where
  "create_box_diagram components =
     (case py_max (map (\<lambda>comp. int (length comp) + 4) components) of
        Inl e \<Rightarrow> Inl e
      | Inr max_width0 \<Rightarrow>
          (let max_width = max max_width0 20
           in Inr (str_join [newline]
                     (box_loop (enumerate_from 0 components)
                        (int (length components)) max_width []))))"

text \<open>The uniform width of the spec: \<open>max(20, max(len(l) + 4 for l in labels))\<close>.\<close>

definition uniform_width :: "string list \<Rightarrow> int" where
  "uniform_width labels = max 20 (Max ((\<lambda>l. int (length l) + 4) ` set labels))"


text \<open>
  The effective width of a box as the specification words it: \<open>len(text) + 4\<close> when no
  width is given, otherwise the given width floored at that minimum; and the left
  padding \<open>(width - 2 - len(text)) // 2\<close>.
\<close>

definition box_width :: "string \<Rightarrow> int option \<Rightarrow> int" where
  "box_width text width =
     (case width of None \<Rightarrow> int (length text) + 4
      | Some w \<Rightarrow> max w (int (length text) + 4))"

definition box_pad :: "string \<Rightarrow> int option \<Rightarrow> int" where
  "box_pad text width = (box_width text width - 2 - int (length text)) div 2"

text \<open>
  The lines of a diagram described by recursion on the labels: a box for each label and
  an arrow between two adjacent boxes. \<open>box_loop\<close> is shown to compute it.
\<close>

fun diagram_layout :: "int \<Rightarrow> string list \<Rightarrow> string list" where
  "diagram_layout w [] = []"
| "diagram_layout w [c] = create_ascii_box c (Some w)"
| "diagram_layout w (c # d # ds) =
     create_ascii_box c (Some w) @ create_vertical_arrow w @ diagram_layout w (d # ds)"


section \<open>Tree extractor and dictionary normalizer (figma\_service.py)\<close>

text \<open>
  A design-tree node is a dictionary with the optional keys \<open>name\<close>, \<open>type\<close>,
  \<open>children\<close>, \<open>style\<close> (a dictionary itself) and \<open>characters\<close>; an absent key is
  \<open>None\<close>. The values under \<open>style\<close> are modelled as strings.
\<close>

datatype node = Node
  (node_name: "string option")
  (node_type: "string option")
  (children: "node list option")
  (style: "(string \<rightharpoonup> string) option")
  (characters: "string option")

text \<open>
  \<open>FigmaService.extract_fonts(node, fonts=None)\<close>. The set \<open>fonts\<close> is mutated in
  place by the recursive calls; the model passes it through them and returns it.
\<close>

fun extract_fonts :: "node \<Rightarrow> string set option \<Rightarrow> string set" where
  "extract_fonts (Node nm ty ch st cs) fonts_arg =
     (let fonts = (case fonts_arg of None \<Rightarrow> {} | Some f \<Rightarrow> f);
          fonts1 = (case ch of None \<Rightarrow> fonts
                    | Some kids \<Rightarrow> fold (\<lambda>child acc. extract_fonts child (Some acc)) kids fonts)
      in if ty = Some ''TEXT'' then
           (case st of None \<Rightarrow> fonts1
            | Some style_dict \<Rightarrow>
                (case style_dict ''fontFamily'' of None \<Rightarrow> fonts1
                 | Some font_family \<Rightarrow>
                     if font_family \<noteq> [] then insert font_family fonts1 else fonts1))
         else fonts1)"

text \<open>\<open>FigmaService.extract_texts(node, texts=None)\<close>, with the list passed through.\<close>

fun extract_texts :: "node \<Rightarrow> string list option \<Rightarrow> string list" where
  "extract_texts (Node nm ty ch st cs) texts_arg =
     (let texts = (case texts_arg of None \<Rightarrow> [] | Some t \<Rightarrow> t);
          texts1 = (case ch of None \<Rightarrow> texts
                    | Some kids \<Rightarrow> fold (\<lambda>child acc. extract_texts child (Some acc)) kids texts)
      in if ty = Some ''TEXT'' then
           (case cs of None \<Rightarrow> texts1 | Some chars \<Rightarrow> texts1 @ [chars])
         else texts1)"


text \<open>
  The nodes of a tree, children before their parent, and what one node by itself adds to
  the fonts and to the texts (the \<open>if\<close> after the loop over the children).
\<close>

fun postorder :: "node \<Rightarrow> node list" where
  "postorder (Node nm ty ch st cs) =
     (case ch of None \<Rightarrow> [] | Some kids \<Rightarrow> concat (map postorder kids))
       @ [Node nm ty ch st cs]"


definition own_fonts :: "node \<Rightarrow> string set" where
  "own_fonts n =
     (if node_type n = Some ''TEXT'' then
        (case style n of None \<Rightarrow> {}
         | Some s \<Rightarrow>
             (case s ''fontFamily'' of None \<Rightarrow> {}
              | Some f \<Rightarrow> if f \<noteq> [] then {f} else {}))
      else {})"

definition own_texts :: "node \<Rightarrow> string list" where
  "own_texts n =
     (if node_type n = Some ''TEXT'' then
        (case characters n of None \<Rightarrow> [] | Some c \<Rightarrow> [c])
      else [])"

text \<open>Two trees to evaluate the extractors on.\<close>

definition sample_tree :: node where
  "sample_tree =
     Node (Some ''Document'') (Some ''DOCUMENT'')
       (Some [Node (Some ''Title'') (Some ''TEXT'') None
                (Some [''fontFamily'' \<mapsto> ''Arial'']) (Some ''Hello''),
              Node (Some ''Frame'') (Some ''FRAME'') (Some []) None None])
       None None"

definition plain_tree :: node where
  "plain_tree =
     Node (Some ''Document'') (Some ''DOCUMENT'')
       (Some [Node (Some ''Frame'') (Some ''FRAME'') (Some []) None None])
       None None"

text \<open>
  \<open>FigmaService.extract_components\<close> and \<open>FigmaService.extract_styles\<close>: the dictionary
  comprehension \<open>{id: details['name'] for id, details in d.items()}\<close>. A dictionary is
  the list of its items in iteration order; \<open>details['name']\<close> raises KeyError when the
  key is absent, which ends the comprehension.
\<close>

fun name_comprehension ::
  "(string \<times> (string \<rightharpoonup> 'v)) list \<Rightarrow> (string \<times> 'v) list \<Rightarrow> py_error + (string \<times> 'v) list" where
  "name_comprehension [] result = Inr result"
| "name_comprehension ((entry_id, details) # rest) result =
     (case details ''name'' of
        None \<Rightarrow> Inl KeyError
      | Some name \<Rightarrow> name_comprehension rest (result @ [(entry_id, name)]))"

definition extract_components ::
  "(string \<times> (string \<rightharpoonup> 'v)) list \<Rightarrow> py_error + (string \<times> 'v) list" where
  "extract_components components_dict = name_comprehension components_dict []"

definition extract_styles ::
  "(string \<times> (string \<rightharpoonup> 'v)) list \<Rightarrow> py_error + (string \<times> 'v) list" where
  "extract_styles styles_dict = name_comprehension styles_dict []"

definition has_name :: "string \<times> (string \<rightharpoonup> 'v) \<Rightarrow> bool" where
  "has_name entry = (snd entry ''name'' \<noteq> None)"


section \<open>The extractors on a store of mutable objects\<close>

text \<open>
  To state that the extractors leave the caller's tree untouched, the tree is placed in a
  store: an address holds a node dictionary (its children are addresses), a set or a
  list. The accumulators \<open>fonts\<close> and \<open>texts\<close> are objects of the same store, created
  by the call when the argument is \<open>None\<close>. The first argument of the functions bounds
  the depth of the recursion, as the interpreter's recursion limit does: a tree deeper
  than that (or a cyclic one) ends in RecursionError.
\<close>

type_synonym addr = nat

record node_obj =
  o_name :: "string option"
  o_type :: "string option"
  o_children :: "addr list option"
  o_style :: "(string \<rightharpoonup> string) option"
  o_characters :: "string option"

datatype obj = NodeObj node_obj | SetObj "string set" | ListObj "string list"

type_synonym heap = "obj list"

text \<open>
  Reading an address, creating an object at a fresh address, and the two methods that
  write: \<open>set.add\<close> and \<open>list.append\<close>. They fail with AttributeError on an object
  of another kind and write nowhere else.
\<close>

definition lookup :: "heap \<Rightarrow> addr \<Rightarrow> obj option" where
  "lookup h a = (if a < length h then Some (h ! a) else None)"

definition alloc :: "obj \<Rightarrow> heap \<Rightarrow> addr \<times> heap" where
  "alloc v h = (length h, h @ [v])"

definition set_add :: "addr \<Rightarrow> string \<Rightarrow> heap \<Rightarrow> (py_error + unit) \<times> heap" where
  "set_add a x h =
     (case lookup h a of
        Some (SetObj s) \<Rightarrow> (Inr (), h[a := SetObj (insert x s)])
      | _ \<Rightarrow> (Inl AttributeError, h))"

definition list_append :: "addr \<Rightarrow> string \<Rightarrow> heap \<Rightarrow> (py_error + unit) \<times> heap" where
  "list_append a x h =
     (case lookup h a of
        Some (ListObj xs) \<Rightarrow> (Inr (), h[a := ListObj (xs @ [x])])
      | _ \<Rightarrow> (Inl AttributeError, h))"

text \<open>A \<open>for\<close> loop whose body can raise: the exception ends the loop.\<close>

fun for_each ::
  "('a \<Rightarrow> heap \<Rightarrow> (py_error + 'b) \<times> heap) \<Rightarrow> 'a list \<Rightarrow> heap \<Rightarrow> (py_error + unit) \<times> heap" where
  "for_each body [] h = (Inr (), h)"
| "for_each body (x # xs) h =
     (case body x h of
        (Inl e, h1) \<Rightarrow> (Inl e, h1)
      | (Inr _, h1) \<Rightarrow> for_each body xs h1)"

text \<open>
  The \<open>if\<close> statement after the loop over the children and the \<open>return\<close>, in
  \<open>extract_fonts\<close> and in \<open>extract_texts\<close>. The node is read from the store as it is
  then. An address that does not hold a node is an ill-typed argument (TypeError).
\<close>

definition fonts_own_step :: "addr \<Rightarrow> addr \<Rightarrow> heap \<Rightarrow> (py_error + addr) \<times> heap" where
  "fonts_own_step node fonts h =
     (case lookup h node of
        Some (NodeObj n) \<Rightarrow>
          if o_type n = Some ''TEXT'' then
            (case o_style n of
               None \<Rightarrow> (Inr fonts, h)
             | Some style_dict \<Rightarrow>
                 (case style_dict ''fontFamily'' of
                    None \<Rightarrow> (Inr fonts, h)
                  | Some font_family \<Rightarrow>
                      if font_family \<noteq> [] then
                        (case set_add fonts font_family h of
                           (Inl e, h1) \<Rightarrow> (Inl e, h1)
                         | (Inr _, h1) \<Rightarrow> (Inr fonts, h1))
                      else (Inr fonts, h)))
          else (Inr fonts, h)
      | _ \<Rightarrow> (Inl TypeError, h))"

definition texts_own_step :: "addr \<Rightarrow> addr \<Rightarrow> heap \<Rightarrow> (py_error + addr) \<times> heap" where
  "texts_own_step node texts h =
     (case lookup h node of
        Some (NodeObj n) \<Rightarrow>
          if o_type n = Some ''TEXT'' then
            (case o_characters n of
               None \<Rightarrow> (Inr texts, h)
             | Some chars \<Rightarrow>
                 (case list_append texts chars h of
                    (Inl e, h1) \<Rightarrow> (Inl e, h1)
                  | (Inr _, h1) \<Rightarrow> (Inr texts, h1)))
          else (Inr texts, h)
      | _ \<Rightarrow> (Inl TypeError, h))"

text \<open>
  \<open>FigmaService.extract_fonts\<close> and \<open>FigmaService.extract_texts\<close> on the store. They
  return the address of the accumulator.
\<close>

fun extract_fonts_h :: "nat \<Rightarrow> addr \<Rightarrow> addr option \<Rightarrow> heap \<Rightarrow> (py_error + addr) \<times> heap" where
  "extract_fonts_h 0 node fonts_arg h = (Inl RecursionError, h)"
| "extract_fonts_h (Suc depth) node fonts_arg h =
     (let (fonts, h0) = (case fonts_arg of None \<Rightarrow> alloc (SetObj {}) h | Some f \<Rightarrow> (f, h))
      in case lookup h0 node of
           Some (NodeObj n) \<Rightarrow>
             (case (case o_children n of
                      None \<Rightarrow> (Inr (), h0)
                    | Some kids \<Rightarrow>
                        for_each (\<lambda>child. extract_fonts_h depth child (Some fonts)) kids h0) of
                (Inl e, h1) \<Rightarrow> (Inl e, h1)
              | (Inr _, h1) \<Rightarrow> fonts_own_step node fonts h1)
         | _ \<Rightarrow> (Inl TypeError, h0))"

fun extract_texts_h :: "nat \<Rightarrow> addr \<Rightarrow> addr option \<Rightarrow> heap \<Rightarrow> (py_error + addr) \<times> heap" where
  "extract_texts_h 0 node texts_arg h = (Inl RecursionError, h)"
| "extract_texts_h (Suc depth) node texts_arg h =
     (let (texts, h0) = (case texts_arg of None \<Rightarrow> alloc (ListObj []) h | Some t \<Rightarrow> (t, h))
      in case lookup h0 node of
           Some (NodeObj n) \<Rightarrow>
             (case (case o_children n of
                      None \<Rightarrow> (Inr (), h0)
                    | Some kids \<Rightarrow>
                        for_each (\<lambda>child. extract_texts_h depth child (Some texts)) kids h0) of
                (Inl e, h1) \<Rightarrow> (Inl e, h1)
              | (Inr _, h1) \<Rightarrow> texts_own_step node texts h1)
         | _ \<Rightarrow> (Inl TypeError, h0))"

text \<open>
  \<open>FigmaService.get_project_structure(node, level)\<close> on the store, with its loop
  \<open>struct += get_project_structure(child, level + 1)\<close>. \<open>node['name']\<close> and
  \<open>node['type']\<close> raise KeyError when the key is absent.
\<close>

fun struct_loop ::
  "(addr \<Rightarrow> heap \<Rightarrow> (py_error + string) \<times> heap) \<Rightarrow> addr list \<Rightarrow> string \<Rightarrow> heap
     \<Rightarrow> (py_error + string) \<times> heap" where
  "struct_loop body [] struct h = (Inr struct, h)"
| "struct_loop body (child # rest) struct h =
     (case body child h of
        (Inl e, h1) \<Rightarrow> (Inl e, h1)
      | (Inr s, h1) \<Rightarrow> struct_loop body rest (struct @ s) h1)"

fun get_project_structure_h ::
  "nat \<Rightarrow> addr \<Rightarrow> int \<Rightarrow> heap \<Rightarrow> (py_error + string) \<times> heap" where
  "get_project_structure_h 0 node level h = (Inl RecursionError, h)"
| "get_project_structure_h (Suc depth) node level h =
     (case lookup h node of
        Some (NodeObj n) \<Rightarrow>
          (case o_name n of
             None \<Rightarrow> (Inl KeyError, h)
           | Some name \<Rightarrow>
               (case o_type n of
                  None \<Rightarrow> (Inl KeyError, h)
                | Some type \<Rightarrow>
                    (let struct = str_mul ''  '' level @ name @ '' ('' @ type @ '')'' @ [newline]
                     in case o_children n of
                          None \<Rightarrow> (Inr struct, h)
                        | Some kids \<Rightarrow>
                            struct_loop (\<lambda>child. get_project_structure_h depth child (level + 1))
                              kids struct h)))
      | _ \<Rightarrow> (Inl TypeError, h))"

text \<open>
  Every address that held a node before holds the same node afterwards (with its name,
  type, children, style and characters).
\<close>

definition nodes_preserved :: "heap \<Rightarrow> heap \<Rightarrow> bool" where
  "nodes_preserved h h' =
     (length h \<le> length h' \<and> (\<forall>a < length h. \<forall>n. h ! a = NodeObj n \<longrightarrow> h' ! a = NodeObj n))"

text \<open>A store with a document at address 0, its text child at 1 and an empty set at 2.\<close>

definition sample_heap :: heap where
  "sample_heap =
     [NodeObj \<lparr>o_name = Some ''Document'', o_type = Some ''DOCUMENT'', o_children = Some [1],
               o_style = None, o_characters = None\<rparr>,
      NodeObj \<lparr>o_name = Some ''Title'', o_type = Some ''TEXT'', o_children = None,
               o_style = Some [''fontFamily'' \<mapsto> ''Arial''], o_characters = Some ''Hello''\<rparr>,
      SetObj {}]"


text \<open>
  The store \<open>h\<close> holds at address \<open>a\<close> the tree \<open>t\<close>; the depth of a tree is the number
  of nested calls the extractors need for it.
\<close>

fun tree_depth :: "node \<Rightarrow> nat" where
  "tree_depth (Node nm ty ch st cs) =
     Suc (case ch of None \<Rightarrow> 0 | Some kids \<Rightarrow> foldr max (map tree_depth kids) 0)"

fun represents :: "heap \<Rightarrow> addr \<Rightarrow> node \<Rightarrow> bool" where
  "represents h a (Node nm ty ch st cs) =
     (case lookup h a of
        Some (NodeObj n) \<Rightarrow>
          o_name n = nm \<and> o_type n = ty \<and> o_style n = st \<and> o_characters n = cs \<and>
          (case ch of
             None \<Rightarrow> o_children n = None
           | Some kids \<Rightarrow>
               (case o_children n of
                  None \<Rightarrow> False
                | Some addrs \<Rightarrow> list_all2 (represents h) addrs kids))
      | _ \<Rightarrow> False)"


section \<open>Step flow generator (pdf\_service.py)\<close>

text \<open>\<open>str(i)\<close> for an integer.\<close>

fun nat_digits :: "nat \<Rightarrow> string" where
  "nat_digits n =
     (if n < 10 then [''0123456789'' ! n]
      else nat_digits (n div 10) @ [''0123456789'' ! (n mod 10)])"

declare nat_digits.simps [simp del]

definition py_str_int :: "int \<Rightarrow> string" where
  "py_str_int i = (if i < 0 then ''-'' @ nat_digits (nat (- i)) else nat_digits (nat i))"

definition apostrophe :: char where
  "apostrophe = CHR 0x27"

text \<open>The two f-strings of the loop, the fixed first two steps and the fixed last four.\<close>

definition frontend_step :: "int \<Rightarrow> string \<Rightarrow> string" where
  "frontend_step i feature =
     ''Step '' @ py_str_int i @ '': Implement the '' @ [apostrophe] @ feature @ [apostrophe]
       @ '' feature in the frontend using Streamlit components (e.g., buttons, forms based on Figma design).''"

definition backend_step :: "int \<Rightarrow> string \<Rightarrow> string" where
  "backend_step i feature =
     ''Step '' @ py_str_int i @ ''.1: Add corresponding backend endpoints in FastAPI for ''
       @ [apostrophe] @ feature @ [apostrophe] @ '' (e.g., API routes for data handling).''"

definition setup_steps :: "string list" where
  "setup_steps =
     [''Step 1: Set up the development environment - Install Python, required libraries (Streamlit, FastAPI, SQLAlchemy, etc.).'',
      ''Step 2: Initialize the project structure - Create directories for frontend (Streamlit app) and backend (FastAPI server).'']"

definition closing_steps :: "string list" where
  "closing_steps =
     [''Step N: Integrate frontend with backend via API calls.'',
      ''Step N+1: Set up database (SQLite) and connect to backend.'',
      ''Step N+2: Test the application end-to-end.'',
      ''Step N+3: Deploy the application (e.g., to Heroku or Vercel).'']"

text \<open>The loop over \<open>enumerate(features, start=3)\<close> with its two \<open>append\<close> calls.\<close>

fun steps_loop :: "(int \<times> string) list \<Rightarrow> string list \<Rightarrow> string list" where
  "steps_loop [] steps = steps"
| "steps_loop ((i, feature) # rest) steps =
     (let steps1 = steps @ [frontend_step i feature];
          steps2 = steps1 @ [backend_step i feature]
      in steps_loop rest steps2)"

text \<open>\<open>PDFService.generate_step_by_step_flow(features)\<close>.\<close>

definition generate_step_by_step_flow :: "string list \<Rightarrow> string list" where
  "generate_step_by_step_flow features =
     (let steps = setup_steps;
          steps1 = steps_loop (enumerate_from 3 features) steps
      in steps1 @ closing_steps)"


section \<open>Component name deriver (diagram\_service.py)\<close>

text \<open>
  The value of \<open>json.loads\<close>, and so of the variable \<open>components\<close>: a Python object
  built from JSON. Numbers are modelled as integers.
\<close>

datatype json =
    JNull
  | JBool bool
  | JNum int
  | JStr string
  | JList "json list"
  | JDict "(string \<times> json) list"

text \<open>
  \<open>str.strip()\<close> removes white space at both ends; \<open>py_isspace\<close> lists the white-space
  code points below 256. \<open>str.startswith\<close>.
\<close>

definition py_isspace :: "char \<Rightarrow> bool" where
  "py_isspace c = (of_char c \<in> {9, 10, 11, 12, 13, 28, 29, 30, 31, 32, 133, 160 :: nat})"

definition str_strip :: "string \<Rightarrow> string" where
  "str_strip s = rev (dropWhile py_isspace (rev (dropWhile py_isspace s)))"

definition str_startswith :: "string \<Rightarrow> string \<Rightarrow> bool" where
  "str_startswith s p = (take (length p) s = p)"

text \<open>
  Truth value, \<open>append\<close> and the slice \<open>[:n]\<close> of a Python object: \<open>append\<close> exists
  on lists only (AttributeError otherwise); a slice exists on lists and strings.
\<close>

fun py_truthy :: "json \<Rightarrow> bool" where
  "py_truthy JNull = False"
| "py_truthy (JBool b) = b"
| "py_truthy (JNum n) = (n \<noteq> 0)"
| "py_truthy (JStr s) = (s \<noteq> [])"
| "py_truthy (JList xs) = (xs \<noteq> [])"
| "py_truthy (JDict kvs) = (kvs \<noteq> [])"

fun py_append :: "json \<Rightarrow> json \<Rightarrow> py_error + json" where
  "py_append (JList xs) v = Inr (JList (xs @ [v]))"
| "py_append other v = Inl AttributeError"

fun py_slice_to :: "nat \<Rightarrow> json \<Rightarrow> py_error + json" where
  "py_slice_to n (JList xs) = Inr (JList (take n xs))"
| "py_slice_to n (JStr s) = Inr (JStr (take n s))"
| "py_slice_to n other = Inl TypeError"

text \<open>Sequencing of statements that can raise.\<close>

definition bind_err :: "py_error + 'a \<Rightarrow> ('a \<Rightarrow> py_error + 'b) \<Rightarrow> py_error + 'b" where
  "bind_err r f = (case r of Inl e \<Rightarrow> Inl e | Inr x \<Rightarrow> f x)"

text \<open>
  The two dictionary arguments. \<open>figma_data\<close> has the keys \<open>name\<close> and \<open>document\<close>
  (a node); \<open>ai_analysis\<close> has \<open>design_analysis\<close>, which has \<open>application_type\<close>,
  \<open>technical_stack_recommendations\<close> (with \<open>frontend\<close>, \<open>backend\<close>, \<open>database\<close>) and
  \<open>key_features\<close>. An absent key is \<open>None\<close>; \<open>get_default\<close> is \<open>dict.get(key, default)\<close>.
\<close>

record tech_stack =
  ts_frontend :: "string list option"
  ts_backend :: "string list option"
  ts_database :: "string option"

record design_analysis =
  da_application_type :: "string option"
  da_technical_stack_recommendations :: "tech_stack option"
  da_key_features :: "string list option"

record ai_analysis =
  ai_design_analysis :: "design_analysis option"

record figma_data =
  fd_name :: "string option"
  fd_document :: "node option"

definition get_default :: "'a option \<Rightarrow> 'a \<Rightarrow> 'a" where
  "get_default v d = (case v of None \<Rightarrow> d | Some x \<Rightarrow> x)"

definition empty_tech_stack :: tech_stack where
  "empty_tech_stack = \<lparr>ts_frontend = None, ts_backend = None, ts_database = None\<rparr>"

definition empty_design_analysis :: design_analysis where
  "empty_design_analysis =
     \<lparr>da_application_type = None, da_technical_stack_recommendations = None,
       da_key_features = None\<rparr>"

text \<open>The names of the children of the document whose type is CANVAS.\<close>

definition canvas_pages :: "figma_data \<Rightarrow> string list" where
  "canvas_pages figma_data =
     (case fd_document figma_data of
        None \<Rightarrow> []
      | Some doc \<Rightarrow>
          (case children doc of
             None \<Rightarrow> []
           | Some kids \<Rightarrow>
               map (\<lambda>child. get_default (node_name child) [])
                 (filter (\<lambda>child. node_type child = Some ''CANVAS'') kids)))"

text \<open>The prompt, an f-string of sixteen lines.\<close>

definition components_prompt ::
  "string \<Rightarrow> string \<Rightarrow> string list \<Rightarrow> string list \<Rightarrow> tech_stack \<Rightarrow> string" where
  \<open>components_prompt project_name app_type pages key_features tech_stack =
     [newline] @ concat (map (\<lambda>l. l @ [newline])
       [''Based on this Figma project analysis, create a list of 4-6 architecture components:'',
        '''',
        ''Project: '' @ project_name,
        ''Type: '' @ app_type,
        ''Pages: '' @ str_join '', '' (take 3 pages),
        ''Features: '' @ str_join '', '' (take 3 key_features),
        ''Frontend: '' @ str_join '', '' (take 2 (get_default (ts_frontend tech_stack) [])),
        ''Backend: '' @ str_join '', '' (take 2 (get_default (ts_backend tech_stack) [])),
        ''Database: '' @ get_default (ts_database tech_stack) [],
        '''',
        ''Generate a JSON array of component names that represent the architecture flow:'',
        ''["Component1", "Component2", "Component3", "Component4"]'',
        '''',
        ''Make them specific to this project. Start with user interaction, then UI layer, then backend services, then data storage.'',
        ''Respond ONLY with the JSON array.''])\<close>

text \<open>
  The block under \<open>if self.llm_service\<close>. It either returns from the function or lets
  control reach the fallback; then \<open>components\<close> is the empty list it started as, or
  what \<open>json.loads\<close> returned when that was not a list of three items or more (the
  assignment \<open>components = json.loads(response)\<close> rebinds the variable). The language
  model \<open>_generate_completion\<close> and \<open>json.loads\<close> are parameters; \<open>Inl\<close> and \<open>None\<close>
  are their exceptions, both caught here.
\<close>

datatype llm_outcome = Return json | FallThrough json

definition llm_path ::
  "(string \<Rightarrow> py_error + string) option \<Rightarrow> (string \<Rightarrow> json option) \<Rightarrow> string \<Rightarrow> json
     \<Rightarrow> llm_outcome" where
  "llm_path llm_service json_loads prompt components =
     (case llm_service of
        None \<Rightarrow> FallThrough components
      | Some generate_completion \<Rightarrow>
          (case generate_completion prompt of
             Inl e \<Rightarrow> FallThrough components
           | Inr response0 \<Rightarrow>
               (let response1 = str_strip response0;
                    response2 =
                      (if str_startswith response1 ''```''
                       then str_join [newline] (butlast (tl (str_split newline response1)))
                       else response1)
                in case json_loads response2 of
                     None \<Rightarrow> FallThrough components
                   | Some loaded \<Rightarrow>
                       (case loaded of
                          JList xs \<Rightarrow>
                            if length xs \<ge> 3 then Return (JList (take 6 xs))
                            else FallThrough loaded
                        | _ \<Rightarrow> FallThrough loaded))))"

text \<open>The loop over \<open>pages[:2]\<close> and the statements of the fallback, in order.\<close>

fun pages_loop :: "string list \<Rightarrow> json \<Rightarrow> py_error + json" where
  "pages_loop [] components = Inr components"
| "pages_loop (page # rest) components =
     (if str_strip page \<noteq> []
      then bind_err (py_append components (JStr (page @ '' Interface''))) (pages_loop rest)
      else pages_loop rest components)"

definition fallback_components ::
  "json \<Rightarrow> string \<Rightarrow> string list \<Rightarrow> string \<Rightarrow> tech_stack \<Rightarrow> string list \<Rightarrow> py_error + json" where
  "fallback_components components project_name pages app_type tech_stack key_features =
     bind_err (if app_type \<noteq> [] then py_append components (JStr (app_type @ '' User''))
               else Inr components) (\<lambda>c1.
     bind_err (if pages \<noteq> [] then pages_loop (take 2 pages) c1 else Inr c1) (\<lambda>c2.
     bind_err (case ts_frontend tech_stack of
                 Some (first # _) \<Rightarrow> py_append c2 (JStr (first @ '' Layer''))
               | _ \<Rightarrow> Inr c2) (\<lambda>c3.
     bind_err (case ts_backend tech_stack of
                 Some (first # _) \<Rightarrow> py_append c3 (JStr (first @ '' API''))
               | _ \<Rightarrow> Inr c3) (\<lambda>c4.
     bind_err (case ts_database tech_stack of
                 Some db \<Rightarrow> if db \<noteq> [] \<and> str_strip db \<noteq> [] then py_append c4 (JStr db)
                            else Inr c4
               | None \<Rightarrow> Inr c4) (\<lambda>c5.
     bind_err (case key_features of
                 first # _ \<Rightarrow> if str_strip first \<noteq> []
                               then py_append c5 (JStr (first @ '' Module'')) else Inr c5
               | [] \<Rightarrow> Inr c5) (\<lambda>c6.
     py_slice_to 6
       (if \<not> py_truthy c6
        then (if project_name \<noteq> [] then JList [JStr (project_name @ '' System'')]
              else JList [JStr ''Application''])
        else c6)))))))"

text \<open>\<open>DiagramService.extract_components_from_figma(figma_data, ai_analysis)\<close>.\<close>

definition extract_components_from_figma ::
  "(string \<Rightarrow> py_error + string) option \<Rightarrow> (string \<Rightarrow> json option)
     \<Rightarrow> figma_data \<Rightarrow> ai_analysis \<Rightarrow> py_error + json" where
  "extract_components_from_figma llm_service json_loads figma_data ai_analysis =
     (let components = JList [];
          project_name = get_default (fd_name figma_data) [];
          pages = canvas_pages figma_data;
          design_analysis = get_default (ai_design_analysis ai_analysis) empty_design_analysis;
          app_type = get_default (da_application_type design_analysis) [];
          tech_stack =
            get_default (da_technical_stack_recommendations design_analysis) empty_tech_stack;
          key_features = get_default (da_key_features design_analysis) []
      in case llm_path llm_service json_loads
                (components_prompt project_name app_type pages key_features tech_stack)
                components of
           Return result \<Rightarrow> Inr result
         | FallThrough components1 \<Rightarrow>
             fallback_components components1 project_name pages app_type tech_stack
               key_features)"

text \<open>
  The fallback list in the words of the specification: the parts in their fixed order,
  truncated to six, and the project name or \<open>Application\<close> when there is no part. A
  string is non-blank when it has a character that is not white space.
\<close>

definition nonblank :: "string \<Rightarrow> bool" where
  "nonblank s = (\<exists>c \<in> set s. \<not> py_isspace c)"

definition fallback_labels ::
  "string \<Rightarrow> string list \<Rightarrow> string \<Rightarrow> tech_stack \<Rightarrow> string list \<Rightarrow> string list" where
  "fallback_labels project_name pages app_type tech_stack key_features =
     (let parts =
            (if app_type \<noteq> [] then [app_type @ '' User''] else [])
            @ map (\<lambda>page. page @ '' Interface'') (filter nonblank (take 2 pages))
            @ (case ts_frontend tech_stack of Some (first # _) \<Rightarrow> [first @ '' Layer''] | _ \<Rightarrow> [])
            @ (case ts_backend tech_stack of Some (first # _) \<Rightarrow> [first @ '' API''] | _ \<Rightarrow> [])
            @ (case ts_database tech_stack of
                 Some db \<Rightarrow> if nonblank db then [db] else []
               | None \<Rightarrow> [])
            @ (case key_features of
                 first # _ \<Rightarrow> if nonblank first then [first @ '' Module''] else []
               | [] \<Rightarrow> [])
      in if parts = []
         then (if project_name \<noteq> [] then [project_name @ '' System''] else [''Application''])
         else take 6 parts)"

text \<open>The facts the deriver reads from its two arguments.\<close>

definition deriver_facts ::
  "figma_data \<Rightarrow> ai_analysis \<Rightarrow> string \<times> string list \<times> string \<times> tech_stack \<times> string list" where
  "deriver_facts figma_data ai_analysis =
     (let design_analysis = get_default (ai_design_analysis ai_analysis) empty_design_analysis
      in (get_default (fd_name figma_data) [],
          canvas_pages figma_data,
          get_default (da_application_type design_analysis) [],
          get_default (da_technical_stack_recommendations design_analysis) empty_tech_stack,
          get_default (da_key_features design_analysis) []))"

text \<open>
  The example of the specification: application type Dashboard, pages Home and Settings,
  no technical stack and no features.
\<close>

definition dashboard_figma :: figma_data where
  "dashboard_figma =
     \<lparr>fd_name = Some ''Shop'',
      fd_document = Some (Node (Some ''Document'') (Some ''DOCUMENT'')
        (Some [Node (Some ''Home'') (Some ''CANVAS'') None None None,
               Node (Some ''Settings'') (Some ''CANVAS'') None None None]) None None)\<rparr>"

definition dashboard_analysis :: ai_analysis where
  "dashboard_analysis =
     \<lparr>ai_design_analysis = Some
        \<lparr>da_application_type = Some ''Dashboard'',
         da_technical_stack_recommendations = None,
         da_key_features = None\<rparr>\<rparr>"



section \<open>Properties of the diagram layout engine\<close>

subsection \<open>Boxes\<close>

lemma str_mul_single: "str_mul [c] n = replicate (nat n) c"
  by (induction "nat n" arbitrary: n) (simp_all add: str_mul_def)

lemma create_ascii_box_eq:
  "create_ascii_box text width =
     [''+'' @ replicate (nat (box_width text width - 2)) (CHR ''-'') @ ''+'',
      ''|'' @ replicate (nat (box_pad text width)) (CHR '' '') @ text
        @ replicate (nat (box_width text width - 2 - int (length text) - box_pad text width)) (CHR '' '')
        @ ''|'',
      ''+'' @ replicate (nat (box_width text width - 2)) (CHR ''-'') @ ''+'']"
  by (cases width) (simp_all add: create_ascii_box_def box_width_def box_pad_def Let_def str_mul_single max_def)

lemma box_width_ge: "int (length text) + 4 \<le> box_width text width"
  by (cases width) (simp_all add: box_width_def)

lemma box_pad_bounds:
  "0 \<le> box_pad text width"
  "box_pad text width \<le> box_width text width - 2 - int (length text) - box_pad text width"
  "box_width text width - 2 - int (length text) - box_pad text width \<le> box_pad text width + 1"
  using box_width_ge[of "text" width] unfolding box_pad_def by linarith+

lemma create_ascii_box_lengths:
  "l \<in> set (create_ascii_box text width) \<Longrightarrow> int (length l) = box_width text width"
  using box_width_ge[of "text" width] box_pad_bounds[of "text" width]
  unfolding create_ascii_box_eq by auto

subsection \<open>The loop, joining and splitting\<close>

lemma box_loop_layout:
  "i + int (length cs) = n \<Longrightarrow>
   box_loop (enumerate_from i cs) n w acc = acc @ diagram_layout w cs"
proof (induction cs arbitrary: i acc)
  case Nil
  then show ?case by simp
next
  case (Cons c cs)
  show ?case
  proof (cases cs)
    case Nil
    with Cons.prems show ?thesis by simp
  next
    case (Cons d ds)
    have lt: "i < n - 1" using Cons.prems Cons by simp
    have "box_loop (enumerate_from i (c # cs)) n w acc =
          box_loop (enumerate_from (i + 1) cs) n w
            ((acc @ create_ascii_box c (Some w)) @ create_vertical_arrow w)"
      using lt by (simp add: Let_def)
    also have "\<dots> = ((acc @ create_ascii_box c (Some w)) @ create_vertical_arrow w)
                     @ diagram_layout w cs"
      using Cons.prems by (intro Cons.IH) simp
    also have "\<dots> = acc @ diagram_layout w (c # cs)"
      using Cons by simp
    finally show ?thesis .
  qed
qed

lemma py_max_map:
  "cs \<noteq> [] \<Longrightarrow> py_max (map f cs) = Inr (Max (f ` set cs))"
proof (cases cs)
  case Nil
  then show "cs \<noteq> [] \<Longrightarrow> ?thesis" by simp
next
  case (Cons c ds)
  have "fold max (map f ds) (f c) = Max (set (f c # map f ds))"
    by (rule Max.set_eq_fold[symmetric])
  then show ?thesis using Cons by simp
qed

lemma split_no_sep: "c \<notin> set x \<Longrightarrow> str_split c (x @ c # rest) = x # str_split c rest"
  by (induction x) (auto simp: Let_def)

lemma split_no_sep_end: "c \<notin> set x \<Longrightarrow> str_split c x = [x]"
  by (induction x) (auto simp: Let_def)

lemma split_join:
  "ls \<noteq> [] \<Longrightarrow> \<forall>l \<in> set ls. c \<notin> set l \<Longrightarrow> str_split c (str_join [c] ls) = ls"
proof (induction "[c]" ls rule: str_join.induct)
  case 1
  then show ?case by simp
next
  case (2 x)
  then show ?case by (simp add: split_no_sep_end)
next
  case (3 x y ys)
  then show ?case by (simp add: split_no_sep)
qed

lemma arrow_lengths:
  "1 \<le> w \<Longrightarrow> l \<in> set (create_vertical_arrow w) \<Longrightarrow> int (length l) = (w - 1) div 2 + 1"
  by (auto simp: create_vertical_arrow_def Let_def str_mul_single)

lemma box_no_sep:
  "c \<notin> set t \<Longrightarrow> c \<noteq> CHR ''+'' \<Longrightarrow> c \<noteq> CHR ''-'' \<Longrightarrow> c \<noteq> CHR ''|'' \<Longrightarrow> c \<noteq> CHR '' '' \<Longrightarrow>
   l \<in> set (create_ascii_box t width) \<Longrightarrow> c \<notin> set l"
  unfolding create_ascii_box_eq by auto

lemma arrow_no_sep:
  "c \<noteq> CHR ''v'' \<Longrightarrow> c \<noteq> CHR ''|'' \<Longrightarrow> c \<noteq> CHR '' '' \<Longrightarrow>
   l \<in> set (create_vertical_arrow w) \<Longrightarrow> c \<notin> set l"
  by (auto simp: create_vertical_arrow_def Let_def str_mul_single)

lemma layout_no_newline:
  "\<forall>t \<in> set cs. newline \<notin> set t \<Longrightarrow> l \<in> set (diagram_layout w cs) \<Longrightarrow> newline \<notin> set l"
proof (induction w cs rule: diagram_layout.induct)
  case (1 w)
  then show ?case by simp
next
  case (2 w c)
  then show ?case using box_no_sep[of newline c l "Some w"] by (simp add: newline_def)
next
  case (3 w c d ds)
  then show ?case
    using box_no_sep[of newline c l "Some w"] arrow_no_sep[of newline l w]
    by (auto simp: newline_def)
qed

lemma layout_length:
  "cs \<noteq> [] \<Longrightarrow> length (diagram_layout w cs) = 3 * length cs + 2 * (length cs - 1)"
  by (induction w cs rule: diagram_layout.induct) (simp_all add: create_ascii_box_def create_vertical_arrow_def Let_def)

lemma layout_nth:
  "\<forall>t \<in> set cs. int (length t) + 4 \<le> w \<Longrightarrow> i < length (diagram_layout w cs) \<Longrightarrow>
   int (length (diagram_layout w cs ! i)) = (if i mod 5 < 3 then w else (w - 1) div 2 + 1)"
proof (induction w cs arbitrary: i rule: diagram_layout.induct)
  case (1 w)
  then show ?case by simp
next
  case (2 w c)
  have lb: "length (create_ascii_box c (Some w)) = 3" by (simp add: create_ascii_box_def Let_def)
  then have i3: "i < 3" using 2 by simp
  have "box_width c (Some w) = w" using 2 by (simp add: box_width_def)
  moreover have "create_ascii_box c (Some w) ! i \<in> set (create_ascii_box c (Some w))"
    using i3 lb by simp
  ultimately show ?case using i3 create_ascii_box_lengths by simp
next
  case (3 w c d ds)
  have bw: "box_width c (Some w) = w" using 3 by (simp add: box_width_def)
  have lb: "length (create_ascii_box c (Some w)) = 3" by (simp add: create_ascii_box_def Let_def)
  have la: "length (create_vertical_arrow w) = 2" by (simp add: create_vertical_arrow_def Let_def)
  have w1: "1 \<le> w" using 3 by auto
  consider "i < 3" | "3 \<le> i" "i < 5" | "5 \<le> i" by linarith
  then show ?case
  proof cases
    case 1
    then have "diagram_layout w (c # d # ds) ! i = create_ascii_box c (Some w) ! i"
      by (simp add: nth_append lb)
    moreover have "create_ascii_box c (Some w) ! i \<in> set (create_ascii_box c (Some w))"
      using 1 lb by simp
    ultimately show ?thesis using 1 bw create_ascii_box_lengths by simp
  next
    case 2
    then have "i - 3 < 2" by linarith
    with 2 have "diagram_layout w (c # d # ds) ! i = create_vertical_arrow w ! (i - 3)"
      by (simp add: nth_append lb la)
    moreover have "create_vertical_arrow w ! (i - 3) \<in> set (create_vertical_arrow w)"
      using 2 la by simp
    moreover have "\<not> i mod 5 < 3" using 2 by simp
    ultimately show ?thesis using arrow_lengths[OF w1] by simp
  next
    case 3
    then have "\<not> i < 3" "\<not> i - 3 < 2" "i - 3 - 2 = i - 5" by linarith+
    then have e: "diagram_layout w (c # d # ds) ! i = diagram_layout w (d # ds) ! (i - 5)"
      by (simp add: nth_append lb la)
    have "i - 5 < length (diagram_layout w (d # ds))" using 3 "3.prems" by (simp add: lb la)
    moreover have "\<forall>t \<in> set (d # ds). int (length t) + 4 \<le> w" using "3.prems" by simp
    ultimately have "int (length (diagram_layout w (d # ds) ! (i - 5))) =
        (if (i - 5) mod 5 < 3 then w else (w - 1) div 2 + 1)"
      by (rule "3.IH"[rotated])
    moreover have "(i - 5) mod 5 = i mod 5" using 3 by (simp add: le_mod_geq)
    ultimately show ?thesis using e by simp
  qed
qed


subsection \<open>Claims on the diagram layout engine\<close>

text \<open>
  Claim C3. For every text and every caller-supplied width (or none),
  \<open>create_ascii_box\<close> returns exactly three lines. The effective width is
  \<open>len(text) + 4\<close> when no width is given and otherwise the given width floored at
  that minimum. The first and the third line are a plus sign, \<open>width - 2\<close> dashes and a
  plus sign; the middle line is a bar, \<open>pad\<close> spaces, the text, the remaining spaces
  and a bar, with \<open>pad = (width - 2 - len(text)) // 2\<close>, so the right side gets the
  odd leftover space (it is \<open>pad\<close> or \<open>pad + 1\<close> wide). Every line is \<open>width\<close> long,
  and \<open>create_ascii_box("OK", width=10)\<close> is the box of the specification.
\<close>

theorem create_ascii_box_spec:
  "create_ascii_box text width =
     [''+'' @ replicate (nat (box_width text width - 2)) (CHR ''-'') @ ''+'',
      ''|'' @ replicate (nat (box_pad text width)) (CHR '' '') @ text
        @ replicate (nat (box_width text width - 2 - int (length text) - box_pad text width)) (CHR '' '')
        @ ''|'',
      ''+'' @ replicate (nat (box_width text width - 2)) (CHR ''-'') @ ''+'']
   \<and> length (create_ascii_box text width) = 3
   \<and> list_all (\<lambda>l. int (length l) = box_width text width) (create_ascii_box text width)
   \<and> 0 \<le> box_pad text width
   \<and> box_pad text width \<le> box_width text width - 2 - int (length text) - box_pad text width
   \<and> box_width text width - 2 - int (length text) - box_pad text width \<le> box_pad text width + 1
   \<and> create_ascii_box ''OK'' (Some 10) = [''+--------+'', ''|   OK   |'', ''+--------+'']"
proof -
  have "length (create_ascii_box text width) = 3"
    by (simp add: create_ascii_box_eq)
  moreover have "list_all (\<lambda>l. int (length l) = box_width text width) (create_ascii_box text width)"
    using create_ascii_box_lengths[of _ "text" width] by (simp add: list_all_iff)
  moreover have "create_ascii_box ''OK'' (Some 10) = [''+--------+'', ''|   OK   |'', ''+--------+'']"
    by (simp add: create_ascii_box_eq box_width_def box_pad_def eval_nat_numeral)
  ultimately show ?thesis
    using create_ascii_box_eq[of "text" width] box_pad_bounds[of "text" width] by blast
qed

text \<open>The theorem at a text of odd excess: one space more on the right.\<close>

theorem create_ascii_box_spec_witness:
  "create_ascii_box ''A'' (Some 8) = [''+------+'', ''|  A   |'', ''+------+'']
   \<and> box_pad ''A'' (Some 8) = 2
   \<and> box_width ''A'' (Some 8) - 2 - int (length ''A'') - box_pad ''A'' (Some 8) = 3"
  using create_ascii_box_spec[of "''A''" "Some 8"]
  by (simp add: box_width_def box_pad_def eval_nat_numeral)

lemma uniform_width_ge:
  "t \<in> set labels \<Longrightarrow> int (length t) + 4 \<le> uniform_width labels"
  unfolding uniform_width_def by (simp add: max.coboundedI2)

lemma create_box_diagram_layout:
  "labels \<noteq> [] \<Longrightarrow>
   create_box_diagram labels =
     Inr (str_join [newline] (diagram_layout (uniform_width labels) labels))"
  by (simp add: create_box_diagram_def py_max_map box_loop_layout uniform_width_def max.commute Let_def)

lemma printable_not_newline: "printable c \<Longrightarrow> c \<noteq> newline"
  by (auto simp: printable_def newline_def)

text \<open>
  Claim C1, amended. For every list of one to six labels of printable ASCII characters,
  \<open>create_box_diagram\<close> returns a string whose split on newlines has exactly
  \<open>3 * n + 2 * (n - 1)\<close> lines. Lines come in groups of five: the three lines of a
  box, each as long as the uniform width \<open>max(20, max(len(l) + 4))\<close>, then the two lines
  of an arrow, each \<open>(width - 1) // 2 + 1\<close> long (the arrow lines are not padded to
  the width of the boxes).
\<close>

theorem create_box_diagram_lines:
  assumes "1 \<le> length labels" and "length labels \<le> 6"
    and "list_all (list_all printable) labels"
  shows "\<exists>s. create_box_diagram labels = Inr s
           \<and> length (str_split newline s) = 3 * length labels + 2 * (length labels - 1)
           \<and> (\<forall>i < length (str_split newline s).
                 int (length (str_split newline s ! i)) =
                   (if i mod 5 < 3 then uniform_width labels
                    else (uniform_width labels - 1) div 2 + 1))"
proof -
  let ?w = "uniform_width labels"
  let ?ls = "diagram_layout ?w labels"
  from assms(1) have ne: "labels \<noteq> []" by auto
  have nonl: "\<forall>t \<in> set labels. newline \<notin> set t"
    using assms(3) printable_not_newline by (auto simp: list_all_iff)
  have lne: "?ls \<noteq> []" using layout_length[OF ne, of ?w] ne by (cases labels) auto
  have "\<forall>l \<in> set ?ls. newline \<notin> set l"
    using layout_no_newline[OF nonl] by blast
  then have sp: "str_split newline (str_join [newline] ?ls) = ?ls"
    using lne by (rule split_join[rotated])
  have wd: "\<forall>t \<in> set labels. int (length t) + 4 \<le> ?w"
    using uniform_width_ge by blast
  show ?thesis
    using create_box_diagram_layout[OF ne] sp layout_length[OF ne, of ?w] layout_nth[OF wd]
    by simp
qed

text \<open>The theorem at two labels: eight lines, a box line of 20 and an arrow line of 10.\<close>

theorem create_box_diagram_lines_witness:
  "1 \<le> length [''A'', ''B''] \<and> length [''A'', ''B''] \<le> 6
   \<and> list_all (list_all printable) [''A'', ''B'']
   \<and> (case create_box_diagram [''A'', ''B''] of Inl e \<Rightarrow> False
       | Inr s \<Rightarrow> length (str_split newline s) = 8
                 \<and> int (length (str_split newline s ! 1)) = 20
                 \<and> int (length (str_split newline s ! 3)) = 10)"
proof -
  have h: "1 \<le> length [''A'', ''B'']" "length [''A'', ''B''] \<le> 6"
    "list_all (list_all printable) [''A'', ''B'']"
    by (simp_all add: printable_def)
  have u: "uniform_width [''A'', ''B''] = 20" by (simp add: uniform_width_def)
  from create_box_diagram_lines[OF h] obtain s where
    s: "create_box_diagram [''A'', ''B''] = Inr s"
       "length (str_split newline s) = 8"
       "\<forall>i < length (str_split newline s). int (length (str_split newline s ! i)) =
           (if i mod 5 < 3 then uniform_width [''A'', ''B'']
            else (uniform_width [''A'', ''B''] - 1) div 2 + 1)"
    by auto
  from s(2,3) have "int (length (str_split newline s ! 1)) = 20"
    "int (length (str_split newline s ! 3)) = 10"
    by (simp_all add: u)
  with h s(1,2) show ?thesis by simp
qed

text \<open>
  Claim C1 as stated asks every line to be as long as the uniform width. With the
  labels \<open>A\<close> and \<open>B\<close> the width is 20 and the fourth line of the diagram, the
  first line of the arrow, is nine spaces and a bar: ten characters.
\<close>

theorem create_box_diagram_uniform_counterexample:
  "list_all (list_all printable) [''A'', ''B'']
   \<and> uniform_width [''A'', ''B''] = 20
   \<and> create_box_diagram [''A'', ''B''] =
       Inr (str_join [newline]
         [''+------------------+'',
          ''|        A         |'',
          ''+------------------+'',
          ''         |'',
          ''         v'',
          ''+------------------+'',
          ''|        B         |'',
          ''+------------------+''])
   \<and> str_split newline (str_join [newline]
         [''+------------------+'',
          ''|        A         |'',
          ''+------------------+'',
          ''         |'',
          ''         v'',
          ''+------------------+'',
          ''|        B         |'',
          ''+------------------+'']) ! 3 = ''         |''
   \<and> length ''         |'' = 10"
  by (simp add: printable_def uniform_width_def create_box_diagram_def create_ascii_box_def
      create_vertical_arrow_def str_mul_def newline_def Let_def eval_nat_numeral)

text \<open>
  Claim C8 as stated asks for a one-box fallback on the empty list. \<open>max\<close> of the
  empty generator raises instead, and nothing catches it.
\<close>

theorem create_box_diagram_empty_counterexample:
  "create_box_diagram [] = Inl ValueError"
  by (simp add: create_box_diagram_def)

text \<open>
  Claim C8, amended. For a single label \<open>create_box_diagram\<close> returns the three lines
  of one box at the width \<open>max(20, len(label) + 4)\<close> joined by newlines, with no arrow;
  on the empty list it raises ValueError.
\<close>

theorem create_box_diagram_single_or_empty:
  "create_box_diagram [label] =
     Inr (str_join [newline] (create_ascii_box label (Some (max 20 (int (length label) + 4)))))
   \<and> length (create_ascii_box label (Some (max 20 (int (length label) + 4)))) = 3
   \<and> create_box_diagram [] = Inl ValueError"
  by (simp add: create_box_diagram_def Let_def max.commute create_ascii_box_def)


section \<open>Properties of the tree extractor\<close>

lemma own_texts_Node:
  "own_texts (Node nm ty ch st cs) =
     (if ty = Some ''TEXT'' then (case cs of None \<Rightarrow> [] | Some c \<Rightarrow> [c]) else [])"
  by (simp add: own_texts_def)

lemma own_fonts_Node:
  "own_fonts (Node nm ty ch st cs) =
     (if ty = Some ''TEXT'' then
        (case st of None \<Rightarrow> {}
         | Some s \<Rightarrow>
             (case s ''fontFamily'' of None \<Rightarrow> {}
              | Some f \<Rightarrow> if f \<noteq> [] then {f} else {}))
      else {})"
  by (simp add: own_fonts_def)

lemma fold_texts:
  assumes "\<And>k acc. k \<in> set kids \<Longrightarrow> f k (Some acc) = acc @ g k"
  shows "fold (\<lambda>child acc. f child (Some acc)) kids acc = acc @ concat (map g kids)"
  using assms by (induction kids arbitrary: acc) simp_all

lemma fold_fonts:
  assumes "\<And>k acc. k \<in> set kids \<Longrightarrow> f k (Some acc) = acc \<union> g k"
  shows "fold (\<lambda>child acc. f child (Some acc)) kids acc = acc \<union> \<Union> (g ` set kids)"
  using assms by (induction kids arbitrary: acc) auto

lemma extract_texts_acc:
  "extract_texts node arg =
     (case arg of None \<Rightarrow> [] | Some t \<Rightarrow> t) @ concat (map own_texts (postorder node))"
proof (induction node arg rule: extract_texts.induct)
  case (1 nm ty ch st cs texts_arg)
  let ?texts = "case texts_arg of None \<Rightarrow> [] | Some t \<Rightarrow> t"
  let ?g = "\<lambda>k. concat (map own_texts (postorder k))"
  have kids: "fold (\<lambda>child acc. extract_texts child (Some acc)) kids ?texts
                = ?texts @ concat (map ?g kids)" if "ch = Some kids" for kids
    using 1[OF refl that] by (intro fold_texts) simp
  have mf: "concat (map own_texts (concat (map postorder kids))) = concat (map ?g kids)" for kids
    by (induction kids) simp_all
  show ?case
  proof (cases ch)
    case None
    then show ?thesis by (simp add: own_texts_Node split: option.splits)
  next
    case (Some ks)
    show ?thesis
      unfolding extract_texts.simps Let_def Some option.case kids[OF Some]
      by (simp add: own_texts_Node mf Some split: option.splits)
  qed
qed

lemma extract_fonts_acc:
  "extract_fonts node arg =
     (case arg of None \<Rightarrow> {} | Some f \<Rightarrow> f) \<union> \<Union> (own_fonts ` set (postorder node))"
proof (induction node arg rule: extract_fonts.induct)
  case (1 nm ty ch st cs fonts_arg)
  let ?fonts = "case fonts_arg of None \<Rightarrow> {} | Some f \<Rightarrow> f"
  let ?g = "\<lambda>k. \<Union> (own_fonts ` set (postorder k))"
  have kids: "fold (\<lambda>child acc. extract_fonts child (Some acc)) kids ?fonts
                = ?fonts \<union> \<Union> (?g ` set kids)" if "ch = Some kids" for kids
    using 1[OF refl that] by (intro fold_fonts) simp
  show ?case
  proof (cases ch)
    case None
    then show ?thesis by (auto simp: own_fonts_Node split: option.splits if_splits)
  next
    case (Some ks)
    show ?thesis
      unfolding extract_fonts.simps Let_def Some option.case kids[OF Some]
      by (auto simp: own_fonts_Node Some split: option.splits if_splits)
  qed
qed


lemma count_own_texts:
  "count_list (concat (map own_texts ns)) c =
     length (filter (\<lambda>n. node_type n = Some ''TEXT'' \<and> characters n = Some c) ns)"
proof (induction ns)
  case Nil
  show ?case by simp
next
  case (Cons n ns)
  show ?case
  proof (cases "node_type n = Some ''TEXT''")
    case True
    show ?thesis
    proof (cases "characters n")
      case None
      with True Cons show ?thesis by (simp add: own_texts_def)
    next
      case (Some a)
      with True Cons show ?thesis by (simp add: own_texts_def)
    qed
  next
    case False
    then show ?thesis using Cons by (simp add: own_texts_def)
  qed
qed

lemma own_fonts_iff:
  "f \<in> own_fonts n \<longleftrightarrow>
     (\<exists>s. node_type n = Some ''TEXT'' \<and> style n = Some s \<and> s ''fontFamily'' = Some f \<and> f \<noteq> [])"
  by (auto simp: own_fonts_def split: option.splits if_splits)

lemma no_text_nodes:
  assumes "\<forall>n \<in> set ns. node_type n \<noteq> Some ''TEXT''"
  shows "\<Union> (own_fonts ` set ns) = {} \<and> concat (map own_texts ns) = []"
proof -
  have "own_fonts n = {} \<and> own_texts n = []" if "n \<in> set ns" for n
    using assms that by (simp add: own_fonts_def own_texts_def)
  then show ?thesis by simp
qed

text \<open>
  Claim C5, amended. \<open>extract_fonts\<close> returns exactly the non-empty \<open>fontFamily\<close>
  values of the nodes of the tree whose type is TEXT and that carry a style.
  \<open>extract_texts\<close> returns the \<open>characters\<close> of exactly the nodes whose type is TEXT
  and that have the \<open>characters\<close> field, the empty string included: each string occurs
  in the result as often as there are such nodes carrying it. A tree with no TEXT node
  gives the empty set and the empty list, and a TEXT node without \<open>characters\<close> (and
  without children) gives no text.
\<close>

theorem extract_fonts_texts_contribution:
  "extract_fonts node None =
     {f. \<exists>n \<in> set (postorder node). \<exists>s. node_type n = Some ''TEXT'' \<and> style n = Some s
           \<and> s ''fontFamily'' = Some f \<and> f \<noteq> []}
   \<and> (\<forall>c. count_list (extract_texts node None) c =
          length (filter (\<lambda>n. node_type n = Some ''TEXT'' \<and> characters n = Some c)
                    (postorder node)))
   \<and> ((\<forall>n \<in> set (postorder node). node_type n \<noteq> Some ''TEXT'') \<longrightarrow>
         extract_fonts node None = {} \<and> extract_texts node None = [])
   \<and> extract_texts (Node nm (Some ''TEXT'') None st None) None = []"
proof -
  have "extract_fonts node None =
     {f. \<exists>n \<in> set (postorder node). \<exists>s. node_type n = Some ''TEXT'' \<and> style n = Some s
           \<and> s ''fontFamily'' = Some f \<and> f \<noteq> []}"
    unfolding extract_fonts_acc using own_fonts_iff by auto
  moreover have "\<forall>c. count_list (extract_texts node None) c =
          length (filter (\<lambda>n. node_type n = Some ''TEXT'' \<and> characters n = Some c)
                    (postorder node))"
    by (simp add: extract_texts_acc count_own_texts)
  moreover have "(\<forall>n \<in> set (postorder node). node_type n \<noteq> Some ''TEXT'') \<longrightarrow>
         extract_fonts node None = {} \<and> extract_texts node None = []"
    using no_text_nodes[of "postorder node"] by (simp add: extract_fonts_acc extract_texts_acc)
  moreover have "extract_texts (Node nm (Some ''TEXT'') None st None) None = []"
    by simp
  ultimately show ?thesis by blast
qed

text \<open>The theorem on a tree with one TEXT node and on a tree with none.\<close>

theorem extract_fonts_texts_contribution_witness:
  "extract_fonts sample_tree None = {''Arial''}
   \<and> count_list (extract_texts sample_tree None) ''Hello'' = 1
   \<and> list_all (\<lambda>n. node_type n \<noteq> Some ''TEXT'') (postorder plain_tree)
   \<and> extract_fonts plain_tree None = {} \<and> extract_texts plain_tree None = []"
proof -
  have p: "\<forall>n \<in> set (postorder plain_tree). node_type n \<noteq> Some ''TEXT''"
    by (simp add: plain_tree_def)
  have "extract_fonts plain_tree None = {} \<and> extract_texts plain_tree None = []"
    using extract_fonts_texts_contribution[of plain_tree] p by blast
  moreover have "extract_fonts sample_tree None = {''Arial''}
      \<and> count_list (extract_texts sample_tree None) ''Hello'' = 1"
    using extract_fonts_texts_contribution[of sample_tree]
    by (auto simp: sample_tree_def)
  ultimately show ?thesis using p by (simp add: list_all_iff)
qed

text \<open>
  Claim C5 as stated asks for non-empty \<open>characters\<close> and lets a TEXT node without
  \<open>characters\<close> add to neither collection. A TEXT node whose \<open>characters\<close> is the empty
  string adds it to the texts, and a TEXT node without \<open>characters\<close> still adds the font
  of its style.
\<close>

theorem extract_texts_empty_characters_counterexample:
  "extract_texts (Node None (Some ''TEXT'') None None (Some [])) None = [[]]
   \<and> extract_fonts (Node None (Some ''TEXT'') None (Some [''fontFamily'' \<mapsto> ''Arial'']) None) None
       = {''Arial''}"
  by simp

text \<open>
  Claim C10. \<open>extract_texts\<close> returns the texts of the TEXT nodes in post-order: the
  result for a node with children is the results for the children, in order, followed by
  the node's own text; so the \<open>characters\<close> of a TEXT node with children come after
  those of all its descendants.
\<close>

theorem extract_texts_postorder:
  "extract_texts node None = concat (map own_texts (postorder node))
   \<and> extract_texts (Node nm ty (Some kids) st cs) None =
       concat (map (\<lambda>k. extract_texts k None) kids) @ own_texts (Node nm ty (Some kids) st cs)
   \<and> extract_texts (Node nm (Some ''TEXT'') (Some kids) st (Some c)) None =
       concat (map (\<lambda>k. extract_texts k None) kids) @ [c]"
proof -
  have cm: "concat (map own_texts (concat (map postorder ks))) =
            concat (map (\<lambda>k. concat (map own_texts (postorder k))) ks)" for ks
    by (induction ks) simp_all
  have "extract_texts (Node nm' ty' (Some kids) st' cs') None =
       concat (map (\<lambda>k. extract_texts k None) kids) @ own_texts (Node nm' ty' (Some kids) st' cs')"
    for nm' ty' st' cs'
    unfolding extract_texts_acc by (simp add: cm)
  from this[of nm ty st cs] this[of nm "Some ''TEXT''" st "Some c"] show ?thesis
    by (simp add: extract_texts_acc own_texts_Node)
qed

text \<open>The theorem on a TEXT node with a TEXT child.\<close>

theorem extract_texts_postorder_witness:
  "extract_texts
     (Node None (Some ''TEXT'')
        (Some [Node None (Some ''TEXT'') None None (Some ''child'')]) None (Some ''parent''))
     None = [''child'', ''parent'']"
  using extract_texts_postorder[where node = "Node None (Some ''TEXT'')
        (Some [Node None (Some ''TEXT'') None None (Some ''child'')]) None (Some ''parent'')"
        and nm = None and kids = "[Node None (Some ''TEXT'') None None (Some ''child'')]"
        and st = None and c = "''parent''"]
  by (simp add: own_texts_Node)

section \<open>Properties of the dictionary normalizer\<close>

lemma name_comprehension_ok:
  "list_all has_name d \<Longrightarrow>
   name_comprehension d acc = Inr (acc @ map (\<lambda>(i, details). (i, the (details ''name''))) d)"
  by (induction d arbitrary: acc) (auto simp: has_name_def)

lemma name_comprehension_fail:
  "\<not> list_all has_name d \<Longrightarrow> name_comprehension d acc = Inl KeyError"
  by (induction d arbitrary: acc) (auto simp: has_name_def split: option.splits)

lemma map_of_names:
  "map_of (map (\<lambda>(i, details). (i, the (details ''name''))) d) k =
     (case map_of d k of None \<Rightarrow> None | Some details \<Rightarrow> Some (the (details ''name'')))"
  by (induction d) auto

text \<open>
  Claim C7. When every entry has the \<open>name\<close> field, \<open>extract_components\<close> and
  \<open>extract_styles\<close> return the mapping of every id to the name of its entry; when an
  entry lacks it, they raise KeyError, which nothing in them catches, and return no
  mapping at all.
\<close>

theorem extract_components_styles_spec:
  "(list_all has_name d \<longrightarrow>
      extract_components d = Inr (map (\<lambda>(i, details). (i, the (details ''name''))) d)
    \<and> extract_styles d = Inr (map (\<lambda>(i, details). (i, the (details ''name''))) d)
    \<and> (\<forall>k. map_of (map (\<lambda>(i, details). (i, the (details ''name''))) d) k =
            (case map_of d k of None \<Rightarrow> None | Some details \<Rightarrow> details ''name'')))
   \<and> (\<not> list_all has_name d \<longrightarrow>
        extract_components d = Inl KeyError \<and> extract_styles d = Inl KeyError)"
proof -
  have "map_of (map (\<lambda>(i, details). (i, the (details ''name''))) d) k =
            (case map_of d k of None \<Rightarrow> None | Some details \<Rightarrow> details ''name'')"
    if "list_all has_name d" for k
  proof (cases "map_of d k")
    case None
    then show ?thesis by (simp add: map_of_names)
  next
    case (Some details)
    then have "(k, details) \<in> set d" by (rule map_of_SomeD)
    with that have "details ''name'' \<noteq> None" by (auto simp: list_all_iff has_name_def)
    with Some show ?thesis by (auto simp: map_of_names)
  qed
  then show ?thesis
    by (simp add: extract_components_def extract_styles_def name_comprehension_ok
        name_comprehension_fail)
qed

text \<open>The theorem on a dictionary with all names and on one with a name missing.\<close>

theorem extract_components_styles_spec_witness:
  "list_all has_name [(''1:2'', [''name'' \<mapsto> ''Button'', ''key'' \<mapsto> ''k'']), (''1:3'', [''name'' \<mapsto> ''Card''])]
   \<and> extract_components [(''1:2'', [''name'' \<mapsto> ''Button'', ''key'' \<mapsto> ''k'']), (''1:3'', [''name'' \<mapsto> ''Card''])]
       = Inr [(''1:2'', ''Button''), (''1:3'', ''Card'')]
   \<and> \<not> list_all has_name [(''1:2'', [''name'' \<mapsto> ''Button'']), (''1:3'', [''key'' \<mapsto> ''k''])]
   \<and> extract_styles [(''1:2'', [''name'' \<mapsto> ''Button'']), (''1:3'', [''key'' \<mapsto> ''k''])]
       = Inl KeyError"
proof -
  have a: "list_all has_name [(''1:2'', [''name'' \<mapsto> ''Button'', ''key'' \<mapsto> ''k'']), (''1:3'', [''name'' \<mapsto> ''Card''])]"
    by (simp add: has_name_def)
  have b: "\<not> list_all has_name [(''1:2'', [''name'' \<mapsto> ''Button'']), (''1:3'', [''key'' \<mapsto> ''k''])]"
    by (simp add: has_name_def)
  show ?thesis
    using a b
      extract_components_styles_spec[of "[(''1:2'', [''name'' \<mapsto> ''Button'', ''key'' \<mapsto> ''k'']), (''1:3'', [''name'' \<mapsto> ''Card''])]"]
      extract_components_styles_spec[of "[(''1:2'', [''name'' \<mapsto> ''Button'']), (''1:3'', [''key'' \<mapsto> ''k''])]"]
    by simp
qed


section \<open>The extractors do not change the tree\<close>

lemma nodes_preserved_refl: "nodes_preserved h h"
  by (simp add: nodes_preserved_def)

lemma nodes_preserved_trans:
  "nodes_preserved h1 h2 \<Longrightarrow> nodes_preserved h2 h3 \<Longrightarrow> nodes_preserved h1 h3"
  by (auto simp: nodes_preserved_def)

lemma alloc_preserved: "nodes_preserved h (snd (alloc v h))"
  by (simp add: nodes_preserved_def alloc_def nth_append)

lemma set_add_preserved: "nodes_preserved h (snd (set_add a x h))"
  by (auto simp: nodes_preserved_def set_add_def lookup_def nth_list_update
      split: option.splits obj.splits)

lemma list_append_preserved: "nodes_preserved h (snd (list_append a x h))"
  by (auto simp: nodes_preserved_def list_append_def lookup_def nth_list_update
      split: option.splits obj.splits)

lemma for_each_preserved:
  assumes "\<And>x h. x \<in> set xs \<Longrightarrow> nodes_preserved h (snd (body x h))"
  shows "nodes_preserved h (snd (for_each body xs h))"
  using assms
proof (induction xs arbitrary: h)
  case Nil
  then show ?case by (simp add: nodes_preserved_refl)
next
  case (Cons x xs)
  obtain r h1 where b: "body x h = (r, h1)" by (cases "body x h")
  have p1: "nodes_preserved h h1" using Cons.prems[of x h] b by simp
  show ?case
  proof (cases r)
    case (Inl e)
    then show ?thesis using b p1 by simp
  next
    case (Inr u)
    have "nodes_preserved h1 (snd (for_each body xs h1))"
      using Cons.prems by (intro Cons.IH) simp
    then show ?thesis using b Inr p1 nodes_preserved_trans by simp
  qed
qed

lemma fonts_own_step_preserved: "nodes_preserved h (snd (fonts_own_step node fonts h))"
proof -
  have "snd (fonts_own_step node fonts h) = h
        \<or> (\<exists>x. snd (fonts_own_step node fonts h) = snd (set_add fonts x h))"
    by (auto simp: fonts_own_step_def split: option.splits obj.splits prod.splits sum.splits)
       (metis snd_conv)+
  then show ?thesis using set_add_preserved nodes_preserved_refl by metis
qed

lemma texts_own_step_preserved: "nodes_preserved h (snd (texts_own_step node texts h))"
proof -
  have "snd (texts_own_step node texts h) = h
        \<or> (\<exists>x. snd (texts_own_step node texts h) = snd (list_append texts x h))"
    by (auto simp: texts_own_step_def split: option.splits obj.splits prod.splits sum.splits)
       (metis snd_conv)+
  then show ?thesis using list_append_preserved nodes_preserved_refl by metis
qed

lemma extract_fonts_h_preserved:
  "nodes_preserved h (snd (extract_fonts_h depth node fonts_arg h))"
proof (induction depth arbitrary: node fonts_arg h)
  case 0
  then show ?case by (simp add: nodes_preserved_refl)
next
  case (Suc depth)
  obtain fonts h0 where
    a: "(case fonts_arg of None \<Rightarrow> alloc (SetObj {}) h | Some f \<Rightarrow> (f, h)) = (fonts, h0)"
    by (cases "case fonts_arg of None \<Rightarrow> alloc (SetObj {}) h | Some f \<Rightarrow> (f, h)")
  have p0: "nodes_preserved h h0"
    using a alloc_preserved[of h "SetObj {}"] by (cases fonts_arg) (auto simp: nodes_preserved_refl)
  have "nodes_preserved h0 (snd (extract_fonts_h (Suc depth) node fonts_arg h))"
  proof (cases "lookup h0 node")
    case None
    then show ?thesis by (simp add: a nodes_preserved_refl)
  next
    case (Some v)
    show ?thesis
    proof (cases v)
      case (NodeObj n)
      obtain r1 h1 where
        l: "(case o_children n of None \<Rightarrow> (Inr (), h0)
             | Some kids \<Rightarrow>
                 for_each (\<lambda>child. extract_fonts_h depth child (Some fonts)) kids h0) = (r1, h1)"
        by (cases "case o_children n of None \<Rightarrow> (Inr (), h0)
             | Some kids \<Rightarrow>
                 for_each (\<lambda>child. extract_fonts_h depth child (Some fonts)) kids h0")
      have p1: "nodes_preserved h0 h1"
      proof (cases "o_children n")
        case None
        with l show ?thesis by (simp add: nodes_preserved_refl)
      next
        case (Some kids)
        have "nodes_preserved h0
                (snd (for_each (\<lambda>child. extract_fonts_h depth child (Some fonts)) kids h0))"
          by (rule for_each_preserved) (rule Suc.IH)
        with l Some show ?thesis by simp
      qed
      show ?thesis
      proof (cases r1)
        case (Inl e)
        with Some NodeObj l p1 show ?thesis by (simp add: a)
      next
        case (Inr u)
        have "nodes_preserved h1 (snd (fonts_own_step node fonts h1))"
          by (rule fonts_own_step_preserved)
        with p1 have "nodes_preserved h0 (snd (fonts_own_step node fonts h1))"
          by (rule nodes_preserved_trans)
        with Some NodeObj l Inr show ?thesis by (simp add: a)
      qed
    next
      case (SetObj x)
      with Some show ?thesis by (simp add: a nodes_preserved_refl)
    next
      case (ListObj x)
      with Some show ?thesis by (simp add: a nodes_preserved_refl)
    qed
  qed
  with p0 show ?case by (rule nodes_preserved_trans)
qed

lemma extract_texts_h_preserved:
  "nodes_preserved h (snd (extract_texts_h depth node texts_arg h))"
proof (induction depth arbitrary: node texts_arg h)
  case 0
  then show ?case by (simp add: nodes_preserved_refl)
next
  case (Suc depth)
  obtain texts h0 where
    a: "(case texts_arg of None \<Rightarrow> alloc (ListObj []) h | Some t \<Rightarrow> (t, h)) = (texts, h0)"
    by (cases "case texts_arg of None \<Rightarrow> alloc (ListObj []) h | Some t \<Rightarrow> (t, h)")
  have p0: "nodes_preserved h h0"
    using a alloc_preserved[of h "ListObj []"] by (cases texts_arg) (auto simp: nodes_preserved_refl)
  have "nodes_preserved h0 (snd (extract_texts_h (Suc depth) node texts_arg h))"
  proof (cases "lookup h0 node")
    case None
    then show ?thesis by (simp add: a nodes_preserved_refl)
  next
    case (Some v)
    show ?thesis
    proof (cases v)
      case (NodeObj n)
      obtain r1 h1 where
        l: "(case o_children n of None \<Rightarrow> (Inr (), h0)
             | Some kids \<Rightarrow>
                 for_each (\<lambda>child. extract_texts_h depth child (Some texts)) kids h0) = (r1, h1)"
        by (cases "case o_children n of None \<Rightarrow> (Inr (), h0)
             | Some kids \<Rightarrow>
                 for_each (\<lambda>child. extract_texts_h depth child (Some texts)) kids h0")
      have p1: "nodes_preserved h0 h1"
      proof (cases "o_children n")
        case None
        with l show ?thesis by (simp add: nodes_preserved_refl)
      next
        case (Some kids)
        have "nodes_preserved h0
                (snd (for_each (\<lambda>child. extract_texts_h depth child (Some texts)) kids h0))"
          by (rule for_each_preserved) (rule Suc.IH)
        with l Some show ?thesis by simp
      qed
      show ?thesis
      proof (cases r1)
        case (Inl e)
        with Some NodeObj l p1 show ?thesis by (simp add: a)
      next
        case (Inr u)
        have "nodes_preserved h1 (snd (texts_own_step node texts h1))"
          by (rule texts_own_step_preserved)
        with p1 have "nodes_preserved h0 (snd (texts_own_step node texts h1))"
          by (rule nodes_preserved_trans)
        with Some NodeObj l Inr show ?thesis by (simp add: a)
      qed
    next
      case (SetObj x)
      with Some show ?thesis by (simp add: a nodes_preserved_refl)
    next
      case (ListObj x)
      with Some show ?thesis by (simp add: a nodes_preserved_refl)
    qed
  qed
  with p0 show ?case by (rule nodes_preserved_trans)
qed


lemma struct_loop_unchanged:
  assumes "\<And>x h. x \<in> set xs \<Longrightarrow> snd (body x h) = h"
  shows "snd (struct_loop body xs struct h) = h"
  using assms
proof (induction xs arbitrary: struct h)
  case Nil
  then show ?case by simp
next
  case (Cons x xs)
  obtain r h1 where b: "body x h = (r, h1)" by (cases "body x h")
  then have h1: "h1 = h" using Cons.prems[of x h] by simp
  show ?case
  proof (cases r)
    case (Inl e)
    with b h1 show ?thesis by simp
  next
    case (Inr s)
    have "snd (struct_loop body xs (struct @ s) h) = h"
      using Cons.prems by (intro Cons.IH) simp
    with b h1 Inr show ?thesis by simp
  qed
qed

lemma get_project_structure_h_unchanged:
  "snd (get_project_structure_h depth node level h) = h"
proof (induction depth arbitrary: node level h)
  case 0
  then show ?case by simp
next
  case (Suc depth)
  have "snd (struct_loop (\<lambda>child. get_project_structure_h depth child (level + 1)) kids s h) = h"
    for kids s
    by (rule struct_loop_unchanged) (rule Suc.IH)
  then show ?case
    by (simp add: Let_def split: option.splits obj.splits)
qed

text \<open>
  Claim C9. Whatever the store, the node, the accumulator and the depth allowed, and
  whether the call returns or raises, \<open>extract_fonts\<close> and \<open>extract_texts\<close> leave every
  node of the store as it was (they write to the accumulator only, which is a set or a
  list), and \<open>get_project_structure\<close> leaves the whole store as it was.
\<close>

theorem extraction_preserves_nodes:
  "nodes_preserved h (snd (extract_fonts_h depth node fonts_arg h))
   \<and> nodes_preserved h (snd (extract_texts_h depth node texts_arg h))
   \<and> snd (get_project_structure_h depth node level h) = h"
  by (simp add: extract_fonts_h_preserved extract_texts_h_preserved
      get_project_structure_h_unchanged)

text \<open>On a store with a document, a text node and a set, the calls return:\<close>

lemma sample_run:
  "extract_fonts_h 3 0 (Some 2) sample_heap =
     (Inr 2, sample_heap[2 := SetObj {''Arial''}])"
  by (simp add: eval_nat_numeral sample_heap_def lookup_def fonts_own_step_def set_add_def)

lemma sample_run_texts:
  "extract_texts_h 3 0 None sample_heap =
     (Inr 3, sample_heap @ [ListObj [''Hello'']])"
  by (simp add: eval_nat_numeral sample_heap_def lookup_def texts_own_step_def list_append_def
      alloc_def)

lemma sample_run_struct:
  "fst (get_project_structure_h 3 0 0 sample_heap) =
     Inr (''Document (DOCUMENT)'' @ [newline] @ ''  Title (TEXT)'' @ [newline])"
  by (simp add: eval_nat_numeral sample_heap_def lookup_def str_mul_def)

text \<open>and the theorem there says that the text node at address 1 is unchanged.\<close>

theorem extraction_preserves_nodes_witness:
  "snd (extract_fonts_h 3 0 (Some 2) sample_heap) ! 1 = sample_heap ! 1
   \<and> snd (extract_texts_h 3 0 None sample_heap) ! 1 = sample_heap ! 1
   \<and> snd (get_project_structure_h 3 0 0 sample_heap) = sample_heap"
proof -
  have n: "1 < length sample_heap"
    "sample_heap ! 1 = NodeObj \<lparr>o_name = Some ''Title'', o_type = Some ''TEXT'',
        o_children = None, o_style = Some [''fontFamily'' \<mapsto> ''Arial''],
        o_characters = Some ''Hello''\<rparr>"
    by (simp_all add: sample_heap_def)
  note t = extraction_preserves_nodes[of sample_heap 3 0 "Some 2" None 0]
  from t have "nodes_preserved sample_heap (snd (extract_fonts_h 3 0 (Some 2) sample_heap))"
    by (rule conjunct1)
  then have f: "snd (extract_fonts_h 3 0 (Some 2) sample_heap) ! 1 = sample_heap ! 1"
    unfolding nodes_preserved_def using n by simp
  from t have "nodes_preserved sample_heap (snd (extract_texts_h 3 0 None sample_heap))"
    by (rule conjunct1[OF conjunct2])
  then have x: "snd (extract_texts_h 3 0 None sample_heap) ! 1 = sample_heap ! 1"
    unfolding nodes_preserved_def using n by simp
  from t have "snd (get_project_structure_h 3 0 0 sample_heap) = sample_heap"
    by (rule conjunct2[OF conjunct2])
  with f x show ?thesis by (simp only: simp_thms)
qed


subsection \<open>Agreement with the extractors on trees\<close>

text \<open>
  On a store that holds a tree, and with a depth bound that the tree does not exceed,
  the extractors on the store return, and their accumulator then holds what the
  extractors on trees compute.
\<close>

lemma foldr_max_ge: "x \<in> set xs \<Longrightarrow> x \<le> foldr max xs (0::nat)"
  by (induction xs) (auto simp: max.coboundedI2)

lemma kid_depth:
  "k \<in> set kids \<Longrightarrow> tree_depth (Node nm ty (Some kids) st cs) \<le> Suc d \<Longrightarrow> tree_depth k \<le> d"
  using foldr_max_ge[of "tree_depth k" "map tree_depth kids"] by simp

lemma represents_update:
  "represents h a t \<Longrightarrow> f < length h \<Longrightarrow> (\<forall>n. h ! f \<noteq> NodeObj n) \<Longrightarrow>
   (\<forall>n. v \<noteq> NodeObj n) \<Longrightarrow> represents (h[f := v]) a t"
proof (induction h a t rule: represents.induct)
  case (1 h a nm ty ch st cs)
  from "1.prems"(1) obtain n where n: "lookup h a = Some (NodeObj n)"
    by (auto split: option.splits obj.splits)
  then have af: "a \<noteq> f" "a < length h" using "1.prems"(3)
    by (auto simp: lookup_def split: if_splits)
  then have l: "lookup (h[f := v]) a = Some (NodeObj n)" using n by (simp add: lookup_def)
  show ?case
  proof (cases ch)
    case None
    with "1.prems"(1) n l show ?thesis by simp
  next
    case (Some kids)
    with "1.prems"(1) n obtain addrs where ad: "o_children n = Some addrs"
      "list_all2 (represents h) addrs kids"
      by (auto split: option.splits)
    have "list_all2 (represents (h[f := v])) addrs kids"
      using ad(2) "1.IH"[OF n refl Some ad(1)] "1.prems"(2,3,4)
      by (auto simp: list_all2_conv_all_nth intro!: "1.IH"[OF n refl Some ad(1)] dest: nth_mem)
    with "1.prems"(1) n l Some ad show ?thesis by simp
  qed
qed

lemma represents_extend:
  "represents h a t \<Longrightarrow> represents (h @ [v]) a t"
proof (induction h a t rule: represents.induct)
  case (1 h a nm ty ch st cs)
  from "1.prems"(1) obtain n where n: "lookup h a = Some (NodeObj n)"
    by (auto split: option.splits obj.splits)
  then have l: "lookup (h @ [v]) a = Some (NodeObj n)"
    by (auto simp: lookup_def nth_append split: if_splits)
  show ?case
  proof (cases ch)
    case None
    with "1.prems"(1) n l show ?thesis by simp
  next
    case (Some kids)
    with "1.prems"(1) n obtain addrs where ad: "o_children n = Some addrs"
      "list_all2 (represents h) addrs kids"
      by (auto split: option.splits)
    have "list_all2 (represents (h @ [v])) addrs kids"
      using ad(2)
      by (auto simp: list_all2_conv_all_nth intro!: "1.IH"[OF n refl Some ad(1)] dest: nth_mem)
    with "1.prems"(1) n l Some ad show ?thesis by simp
  qed
qed


lemma update_same: "h ! f = v \<Longrightarrow> h = h[f := v]"
  by (metis list_update_id)

lemma fonts_loop_agrees:
  assumes "list_all2 (represents h) addrs kids"
    and "f < length h" and "h ! f = SetObj S"
    and "\<And>k a h S. k \<in> set kids \<Longrightarrow> represents h a k \<Longrightarrow> f < length h \<Longrightarrow> h ! f = SetObj S \<Longrightarrow>
           extract_fonts_h d a (Some f) h = (Inr f, h[f := SetObj (extract_fonts k (Some S))])"
  shows "for_each (\<lambda>child. extract_fonts_h d child (Some f)) addrs h =
           (Inr (), h[f := SetObj (fold (\<lambda>child acc. extract_fonts child (Some acc)) kids S)])"
  using assms(2-4) assms(1)
proof (induction kids arbitrary: addrs h S)
  case Nil
  from Nil have "addrs = []" by simp
  moreover from Nil have "h = h[f := SetObj S]" by (intro update_same) simp
  ultimately show ?case by simp
next
  case (Cons k kids)
  note prems = Cons.prems
  from prems obtain a rest where addrs: "addrs = a # rest"
    and ra: "represents h a k" and rr: "list_all2 (represents h) rest kids"
    by (auto simp: list_all2_Cons2)
  from prems have fl: "f < length h" and hf: "h ! f = SetObj S" by simp_all
  have kid: "extract_fonts_h d a (Some f) h = (Inr f, h[f := SetObj (extract_fonts k' (Some S))])"
    if "k' \<in> set (k # kids)" "represents h a k'" "f < length h" "h ! f = SetObj S"
    for k' a h S
    using that prems by blast
  let ?S1 = "extract_fonts k (Some S)"
  let ?h1 = "h[f := SetObj ?S1]"
  have step: "extract_fonts_h d a (Some f) h = (Inr f, ?h1)"
    using ra fl hf by (intro kid) simp_all
  have r1: "list_all2 (represents ?h1) rest kids"
    using rr fl hf
    by (auto simp: list_all2_conv_all_nth intro!: represents_update)
  have "for_each (\<lambda>child. extract_fonts_h d child (Some f)) rest ?h1 =
          (Inr (), ?h1[f := SetObj (fold (\<lambda>child acc. extract_fonts child (Some acc)) kids ?S1)])"
    using r1 fl kid by (intro Cons.IH) simp_all
  then show ?case using step addrs by simp
qed

lemma extract_fonts_h_agrees:
  "represents h a t \<Longrightarrow> tree_depth t \<le> d \<Longrightarrow> f < length h \<Longrightarrow> h ! f = SetObj S \<Longrightarrow>
   extract_fonts_h d a (Some f) h = (Inr f, h[f := SetObj (extract_fonts t (Some S))])"
proof (induction d arbitrary: t a h S)
  case 0
  then show ?case by (cases t) simp
next
  case (Suc d)
  obtain nm ty ch st cs where t: "t = Node nm ty ch st cs" by (cases t)
  from Suc.prems(1) t obtain n where n: "lookup h a = Some (NodeObj n)"
    and fields: "o_name n = nm" "o_type n = ty" "o_style n = st" "o_characters n = cs"
    by (auto split: option.splits obj.splits)
  have af: "a \<noteq> f" using n Suc.prems(3,4) by (auto simp: lookup_def split: if_splits)
  let ?S1 = "case ch of None \<Rightarrow> S
             | Some kids \<Rightarrow> fold (\<lambda>child acc. extract_fonts child (Some acc)) kids S"
  let ?h1 = "h[f := SetObj ?S1]"
  have loop: "(case o_children n of None \<Rightarrow> (Inr (), h)
               | Some kids \<Rightarrow> for_each (\<lambda>child. extract_fonts_h d child (Some f)) kids h)
              = (Inr (), ?h1)"
  proof (cases ch)
    case None
    with Suc.prems(1,3,4) t n show ?thesis by (simp add: update_same)
  next
    case (Some kids)
    with Suc.prems(1) t n obtain addrs where ad: "o_children n = Some addrs"
      "list_all2 (represents h) addrs kids"
      by (auto split: option.splits)
    have "for_each (\<lambda>child. extract_fonts_h d child (Some f)) addrs h =
           (Inr (), h[f := SetObj (fold (\<lambda>child acc. extract_fonts child (Some acc)) kids S)])"
    proof (rule fonts_loop_agrees[OF ad(2) Suc.prems(3,4)])
      fix k a' h' S'
      assume "k \<in> set kids" "represents h' a' k" "f < length h'" "h' ! f = SetObj S'"
      moreover have "tree_depth k \<le> d"
        using kid_depth[OF \<open>k \<in> set kids\<close>] Suc.prems(2) t Some by simp
      ultimately show "extract_fonts_h d a' (Some f) h' =
          (Inr f, h'[f := SetObj (extract_fonts k (Some S'))])"
        by (intro Suc.IH)
    qed
    with Some ad show ?thesis by simp
  qed
  have l1: "lookup ?h1 a = Some (NodeObj n)"
    using n af by (auto simp: lookup_def split: if_splits)
  have lf: "lookup ?h1 f = Some (SetObj ?S1)" using Suc.prems(3) by (simp add: lookup_def)
  have own: "fonts_own_step a f ?h1 = (Inr f, h[f := SetObj (extract_fonts t (Some S))])"
    using l1 lf fields
    by (auto simp: fonts_own_step_def set_add_def t Let_def split: option.splits)
  show ?case
    using n loop own by (simp add: Let_def)
qed

lemma extract_fonts_h_top:
  assumes "represents h a t" and "tree_depth t \<le> d"
  shows "extract_fonts_h d a None h = (Inr (length h), h @ [SetObj (extract_fonts t None)])"
proof -
  obtain d' where d: "d = Suc d'" using assms(2) by (cases t; cases d) auto
  have "extract_fonts_h d a (Some (length h)) (h @ [SetObj {}]) =
          (Inr (length h), (h @ [SetObj {}])[length h := SetObj (extract_fonts t (Some {}))])"
    using represents_extend[OF assms(1)] assms(2) by (intro extract_fonts_h_agrees) simp_all
  moreover have "extract_fonts t (Some {}) = extract_fonts t None"
    by (simp add: extract_fonts_acc)
  moreover have "extract_fonts_h d a None h =
                 extract_fonts_h d a (Some (length h)) (h @ [SetObj {}])"
    unfolding d by (simp add: alloc_def)
  ultimately show ?thesis by simp
qed

lemma texts_loop_agrees:
  assumes "list_all2 (represents h) addrs kids"
    and "f < length h" and "h ! f = ListObj S"
    and "\<And>k a h S. k \<in> set kids \<Longrightarrow> represents h a k \<Longrightarrow> f < length h \<Longrightarrow> h ! f = ListObj S \<Longrightarrow>
           extract_texts_h d a (Some f) h = (Inr f, h[f := ListObj (extract_texts k (Some S))])"
  shows "for_each (\<lambda>child. extract_texts_h d child (Some f)) addrs h =
           (Inr (), h[f := ListObj (fold (\<lambda>child acc. extract_texts child (Some acc)) kids S)])"
  using assms(2-4) assms(1)
proof (induction kids arbitrary: addrs h S)
  case Nil
  from Nil have "addrs = []" by simp
  moreover from Nil have "h = h[f := ListObj S]" by (intro update_same) simp
  ultimately show ?case by simp
next
  case (Cons k kids)
  note prems = Cons.prems
  from prems obtain a rest where addrs: "addrs = a # rest"
    and ra: "represents h a k" and rr: "list_all2 (represents h) rest kids"
    by (auto simp: list_all2_Cons2)
  from prems have fl: "f < length h" and hf: "h ! f = ListObj S" by simp_all
  have kid: "extract_texts_h d a (Some f) h = (Inr f, h[f := ListObj (extract_texts k' (Some S))])"
    if "k' \<in> set (k # kids)" "represents h a k'" "f < length h" "h ! f = ListObj S"
    for k' a h S
    using that prems by blast
  let ?S1 = "extract_texts k (Some S)"
  let ?h1 = "h[f := ListObj ?S1]"
  have step: "extract_texts_h d a (Some f) h = (Inr f, ?h1)"
    using ra fl hf by (intro kid) simp_all
  have r1: "list_all2 (represents ?h1) rest kids"
    using rr fl hf
    by (auto simp: list_all2_conv_all_nth intro!: represents_update)
  have "for_each (\<lambda>child. extract_texts_h d child (Some f)) rest ?h1 =
          (Inr (), ?h1[f := ListObj (fold (\<lambda>child acc. extract_texts child (Some acc)) kids ?S1)])"
    using r1 fl kid by (intro Cons.IH) simp_all
  then show ?case using step addrs by simp
qed

lemma extract_texts_h_agrees:
  "represents h a t \<Longrightarrow> tree_depth t \<le> d \<Longrightarrow> f < length h \<Longrightarrow> h ! f = ListObj S \<Longrightarrow>
   extract_texts_h d a (Some f) h = (Inr f, h[f := ListObj (extract_texts t (Some S))])"
proof (induction d arbitrary: t a h S)
  case 0
  then show ?case by (cases t) simp
next
  case (Suc d)
  obtain nm ty ch st cs where t: "t = Node nm ty ch st cs" by (cases t)
  from Suc.prems(1) t obtain n where n: "lookup h a = Some (NodeObj n)"
    and fields: "o_name n = nm" "o_type n = ty" "o_style n = st" "o_characters n = cs"
    by (auto split: option.splits obj.splits)
  have af: "a \<noteq> f" using n Suc.prems(3,4) by (auto simp: lookup_def split: if_splits)
  let ?S1 = "case ch of None \<Rightarrow> S
             | Some kids \<Rightarrow> fold (\<lambda>child acc. extract_texts child (Some acc)) kids S"
  let ?h1 = "h[f := ListObj ?S1]"
  have loop: "(case o_children n of None \<Rightarrow> (Inr (), h)
               | Some kids \<Rightarrow> for_each (\<lambda>child. extract_texts_h d child (Some f)) kids h)
              = (Inr (), ?h1)"
  proof (cases ch)
    case None
    with Suc.prems(1,3,4) t n show ?thesis by (simp add: update_same)
  next
    case (Some kids)
    with Suc.prems(1) t n obtain addrs where ad: "o_children n = Some addrs"
      "list_all2 (represents h) addrs kids"
      by (auto split: option.splits)
    have "for_each (\<lambda>child. extract_texts_h d child (Some f)) addrs h =
           (Inr (), h[f := ListObj (fold (\<lambda>child acc. extract_texts child (Some acc)) kids S)])"
    proof (rule texts_loop_agrees[OF ad(2) Suc.prems(3,4)])
      fix k a' h' S'
      assume "k \<in> set kids" "represents h' a' k" "f < length h'" "h' ! f = ListObj S'"
      moreover have "tree_depth k \<le> d"
        using kid_depth[OF \<open>k \<in> set kids\<close>] Suc.prems(2) t Some by simp
      ultimately show "extract_texts_h d a' (Some f) h' =
          (Inr f, h'[f := ListObj (extract_texts k (Some S'))])"
        by (intro Suc.IH)
    qed
    with Some ad show ?thesis by simp
  qed
  have l1: "lookup ?h1 a = Some (NodeObj n)"
    using n af by (auto simp: lookup_def split: if_splits)
  have lf: "lookup ?h1 f = Some (ListObj ?S1)" using Suc.prems(3) by (simp add: lookup_def)
  have own: "texts_own_step a f ?h1 = (Inr f, h[f := ListObj (extract_texts t (Some S))])"
    using l1 lf fields
    by (auto simp: texts_own_step_def list_append_def t Let_def split: option.splits)
  show ?case
    using n loop own by (simp add: Let_def)
qed

lemma extract_texts_h_top:
  assumes "represents h a t" and "tree_depth t \<le> d"
  shows "extract_texts_h d a None h = (Inr (length h), h @ [ListObj (extract_texts t None)])"
proof -
  obtain d' where d: "d = Suc d'" using assms(2) by (cases t; cases d) auto
  have "extract_texts_h d a (Some (length h)) (h @ [ListObj []]) =
          (Inr (length h), (h @ [ListObj []])[length h := ListObj (extract_texts t (Some []))])"
    using represents_extend[OF assms(1)] assms(2) by (intro extract_texts_h_agrees) simp_all
  moreover have "extract_texts t (Some []) = extract_texts t None"
    by (simp add: extract_texts_acc)
  moreover have "extract_texts_h d a None h =
                 extract_texts_h d a (Some (length h)) (h @ [ListObj []])"
    unfolding d by (simp add: alloc_def)
  ultimately show ?thesis by simp
qed



section \<open>Properties of the step flow generator\<close>

lemma steps_loop_eq:
  "steps_loop (enumerate_from i fs) steps =
     steps @ concat (map (\<lambda>(j, f). [frontend_step j f, backend_step j f]) (enumerate_from i fs))"
  by (induction fs arbitrary: i steps) (simp_all add: Let_def)

lemma enumerate_from_length: "length (enumerate_from i xs) = length xs"
  by (induction xs arbitrary: i) simp_all

lemma enumerate_from_nth:
  "k < length xs \<Longrightarrow> enumerate_from i xs ! k = (i + int k, xs ! k)"
proof (induction xs arbitrary: i k)
  case Nil
  then show ?case by simp
next
  case (Cons x xs)
  then show ?case by (cases k) simp_all
qed

lemma pairs_length: "length (concat (map (\<lambda>(j, f). [g j f, h j f]) ps)) = 2 * length ps"
  by (induction ps) auto

lemma pairs_nth:
  "k < length ps \<Longrightarrow>
   concat (map (\<lambda>(j, f). [g j f, h j f]) ps) ! (2 * k) = g (fst (ps ! k)) (snd (ps ! k)) \<and>
   concat (map (\<lambda>(j, f). [g j f, h j f]) ps) ! (2 * k + 1) = h (fst (ps ! k)) (snd (ps ! k))"
proof (induction ps arbitrary: k)
  case Nil
  then show ?case by simp
next
  case (Cons p ps)
  then show ?case by (cases k) (auto simp: case_prod_beta)
qed

text \<open>
  Claim C6. For every list of features, duplicates or none included,
  \<open>generate_step_by_step_flow\<close> returns \<open>2 + 2 * len(features) + 4\<close> entries: the two
  fixed setup steps; then for the feature at index \<open>k\<close> (from 0) the entry
  \<open>Step {k+3}: Implement the '{feature}' ...\<close> followed by
  \<open>Step {k+3}.1: Add ... for '{feature}' ...\<close>; then the four fixed closing steps, whose
  numbers are the letters \<open>N\<close>, \<open>N+1\<close>, \<open>N+2\<close>, \<open>N+3\<close>.
\<close>

theorem generate_step_by_step_flow_spec:
  "length (generate_step_by_step_flow features) = 2 + 2 * length features + 4
   \<and> take 2 (generate_step_by_step_flow features) = setup_steps
   \<and> (\<forall>k < length features.
         generate_step_by_step_flow features ! (2 + 2 * k) =
           ''Step '' @ py_str_int (int k + 3) @ '': Implement the '' @ [apostrophe] @ features ! k
             @ [apostrophe]
             @ '' feature in the frontend using Streamlit components (e.g., buttons, forms based on Figma design).''
         \<and> generate_step_by_step_flow features ! (2 + 2 * k + 1) =
           ''Step '' @ py_str_int (int k + 3)
             @ ''.1: Add corresponding backend endpoints in FastAPI for '' @ [apostrophe]
             @ features ! k @ [apostrophe] @ '' (e.g., API routes for data handling).'')
   \<and> drop (2 + 2 * length features) (generate_step_by_step_flow features) =
       [''Step N: Integrate frontend with backend via API calls.'',
        ''Step N+1: Set up database (SQLite) and connect to backend.'',
        ''Step N+2: Test the application end-to-end.'',
        ''Step N+3: Deploy the application (e.g., to Heroku or Vercel).'']"
proof -
  let ?ps = "enumerate_from 3 features"
  let ?mid = "concat (map (\<lambda>(j, f). [frontend_step j f, backend_step j f]) ?ps)"
  have g: "generate_step_by_step_flow features = setup_steps @ ?mid @ closing_steps"
    by (simp add: generate_step_by_step_flow_def steps_loop_eq Let_def)
  have ls: "length setup_steps = 2" by (simp add: setup_steps_def)
  have lm: "length ?mid = 2 * length features"
    by (simp add: pairs_length enumerate_from_length)
  have len: "length (generate_step_by_step_flow features) = 2 + 2 * length features + 4"
    unfolding g by (simp add: ls lm closing_steps_def)
  have tk: "take 2 (generate_step_by_step_flow features) = setup_steps"
    unfolding g using ls by simp
  have dr: "drop (2 + 2 * length features) (generate_step_by_step_flow features) = closing_steps"
    unfolding g using ls lm by simp
  have mid: "generate_step_by_step_flow features ! (2 + 2 * k) = frontend_step (int k + 3) (features ! k)
        \<and> generate_step_by_step_flow features ! (2 + 2 * k + 1) = backend_step (int k + 3) (features ! k)"
    if k: "k < length features" for k
  proof -
    have kp: "k < length ?ps" using k by (simp add: enumerate_from_length)
    have a: "2 * k < length ?mid" "2 * k + 1 < length ?mid" using k lm by simp_all
    have "generate_step_by_step_flow features ! (2 + 2 * k) = ?mid ! (2 * k)"
      unfolding g using ls a by (simp add: nth_append)
    moreover have "generate_step_by_step_flow features ! (2 + 2 * k + 1) = ?mid ! (2 * k + 1)"
      unfolding g using ls a by (simp add: nth_append)
    ultimately show ?thesis
      using pairs_nth[OF kp, of frontend_step backend_step] enumerate_from_nth[OF k, of 3]
      by (simp add: add.commute)
  qed
  show ?thesis
    using len tk dr mid
    by (simp add: frontend_step_def backend_step_def closing_steps_def)
qed

text \<open>The theorem on the one feature \<open>Login\<close>: eight entries, steps 3 and 3.1.\<close>

theorem generate_step_by_step_flow_spec_witness:
  "length (generate_step_by_step_flow [''Login'']) = 8
   \<and> generate_step_by_step_flow [''Login''] ! 2 =
       ''Step 3: Implement the '' @ [apostrophe] @ ''Login'' @ [apostrophe]
         @ '' feature in the frontend using Streamlit components (e.g., buttons, forms based on Figma design).''
   \<and> generate_step_by_step_flow [''Login''] ! 3 =
       ''Step 3.1: Add corresponding backend endpoints in FastAPI for '' @ [apostrophe]
         @ ''Login'' @ [apostrophe] @ '' (e.g., API routes for data handling).''
   \<and> generate_step_by_step_flow [''Login''] ! 4 =
       ''Step N: Integrate frontend with backend via API calls.''"
proof -
  note t = generate_step_by_step_flow_spec[of "[''Login'']"]
  have d: "py_str_int 3 = ''3''"
    by (simp add: py_str_int_def nat_digits.simps)
  from t have l: "length (generate_step_by_step_flow [''Login'']) = 8" by simp
  from t have "\<forall>k < length [''Login''].
         generate_step_by_step_flow [''Login''] ! (2 + 2 * k) =
           ''Step '' @ py_str_int (int k + 3) @ '': Implement the '' @ [apostrophe]
             @ [''Login''] ! k @ [apostrophe]
             @ '' feature in the frontend using Streamlit components (e.g., buttons, forms based on Figma design).''
         \<and> generate_step_by_step_flow [''Login''] ! (2 + 2 * k + 1) =
           ''Step '' @ py_str_int (int k + 3)
             @ ''.1: Add corresponding backend endpoints in FastAPI for '' @ [apostrophe]
             @ [''Login''] ! k @ [apostrophe] @ '' (e.g., API routes for data handling).''"
    by (rule conjunct1[OF conjunct2[OF conjunct2]])
  then have m: "generate_step_by_step_flow [''Login''] ! 2 =
       ''Step 3: Implement the '' @ [apostrophe] @ ''Login'' @ [apostrophe]
         @ '' feature in the frontend using Streamlit components (e.g., buttons, forms based on Figma design).''"
    "generate_step_by_step_flow [''Login''] ! 3 =
       ''Step 3.1: Add corresponding backend endpoints in FastAPI for '' @ [apostrophe]
         @ ''Login'' @ [apostrophe] @ '' (e.g., API routes for data handling).''"
    using d by simp_all
  from t have "drop (2 + 2 * length [''Login'']) (generate_step_by_step_flow [''Login'']) =
       [''Step N: Integrate frontend with backend via API calls.'',
        ''Step N+1: Set up database (SQLite) and connect to backend.'',
        ''Step N+2: Test the application end-to-end.'',
        ''Step N+3: Deploy the application (e.g., to Heroku or Vercel).'']"
    by (rule conjunct2[OF conjunct2[OF conjunct2]])
  then have "drop 4 (generate_step_by_step_flow [''Login'']) ! 0 =
       ''Step N: Integrate frontend with backend via API calls.''"
    by simp
  then have c: "generate_step_by_step_flow [''Login''] ! 4 =
       ''Step N: Integrate frontend with backend via API calls.''"
    using l by simp
  from l m c show ?thesis by (simp only: simp_thms)
qed


section \<open>Properties of the component name deriver\<close>

subsection \<open>The fallback on an empty list\<close>

lemma strip_nonblank: "str_strip s \<noteq> [] \<longleftrightarrow> nonblank s"
proof (cases "dropWhile py_isspace s = []")
  case True
  then have "\<not> nonblank s" by (simp add: nonblank_def)
  moreover have "str_strip s = []" unfolding str_strip_def True by simp
  ultimately show ?thesis by simp
next
  case False
  then have nb: "nonblank s" by (auto simp: nonblank_def)
  from False have "\<not> py_isspace (hd (dropWhile py_isspace s))" by (rule hd_dropWhile)
  moreover from False have "hd (dropWhile py_isspace s) \<in> set (rev (dropWhile py_isspace s))"
    by simp
  ultimately have "dropWhile py_isspace (rev (dropWhile py_isspace s)) \<noteq> []"
    unfolding dropWhile_eq_Nil_conv by blast
  with nb show ?thesis by (simp add: str_strip_def)
qed

lemma pages_loop_list:
  "pages_loop ps (JList xs) =
     Inr (JList (xs @ map (\<lambda>page. JStr (page @ '' Interface'')) (filter nonblank ps)))"
  by (induction ps arbitrary: xs) (simp_all add: strip_nonblank bind_err_def)

lemma bind_err_Inr: "bind_err (Inr x) f = f x"
  by (simp add: bind_err_def)

lemma fallback_components_list:
  "fallback_components (JList []) project_name pages app_type tech_stack key_features =
     Inr (JList (map JStr (fallback_labels project_name pages app_type tech_stack key_features)))"
proof -
  define p1 where "p1 = (if app_type \<noteq> [] then [app_type @ '' User''] else [])"
  define p2 where "p2 = p1 @ map (\<lambda>page. page @ '' Interface'') (filter nonblank (take 2 pages))"
  define p3 where "p3 = p2 @ (case ts_frontend tech_stack of
                                Some (first # _) \<Rightarrow> [first @ '' Layer''] | _ \<Rightarrow> [])"
  define p4 where "p4 = p3 @ (case ts_backend tech_stack of
                                Some (first # _) \<Rightarrow> [first @ '' API''] | _ \<Rightarrow> [])"
  define p5 where "p5 = p4 @ (case ts_database tech_stack of
                                Some db \<Rightarrow> if nonblank db then [db] else [] | None \<Rightarrow> [])"
  define p6 where "p6 = p5 @ (case key_features of
                                first # _ \<Rightarrow> if nonblank first then [first @ '' Module''] else []
                              | [] \<Rightarrow> [])"
  have s1: "(if app_type \<noteq> [] then py_append (JList []) (JStr (app_type @ '' User''))
             else Inr (JList [])) = Inr (JList (map JStr p1))"
    by (simp add: p1_def)
  have s2: "(if pages \<noteq> [] then pages_loop (take 2 pages) (JList (map JStr p1))
             else Inr (JList (map JStr p1))) = Inr (JList (map JStr p2))"
    by (simp add: p2_def pages_loop_list comp_def)
  have s3: "(case ts_frontend tech_stack of
               Some (first # _) \<Rightarrow> py_append (JList (map JStr p2)) (JStr (first @ '' Layer''))
             | _ \<Rightarrow> Inr (JList (map JStr p2))) = Inr (JList (map JStr p3))"
    by (simp add: p3_def split: option.splits list.splits)
  have s4: "(case ts_backend tech_stack of
               Some (first # _) \<Rightarrow> py_append (JList (map JStr p3)) (JStr (first @ '' API''))
             | _ \<Rightarrow> Inr (JList (map JStr p3))) = Inr (JList (map JStr p4))"
    by (simp add: p4_def split: option.splits list.splits)
  have s5: "(case ts_database tech_stack of
               Some db \<Rightarrow> if db \<noteq> [] \<and> str_strip db \<noteq> []
                          then py_append (JList (map JStr p4)) (JStr db)
                          else Inr (JList (map JStr p4))
             | None \<Rightarrow> Inr (JList (map JStr p4))) = Inr (JList (map JStr p5))"
    by (auto simp: p5_def strip_nonblank nonblank_def split: option.splits)
  have s6: "(case key_features of
               first # _ \<Rightarrow> if str_strip first \<noteq> []
                             then py_append (JList (map JStr p5)) (JStr (first @ '' Module''))
                             else Inr (JList (map JStr p5))
             | [] \<Rightarrow> Inr (JList (map JStr p5))) = Inr (JList (map JStr p6))"
    by (simp add: p6_def strip_nonblank split: list.splits)
  have p6: "p6 = (if app_type \<noteq> [] then [app_type @ '' User''] else [])
            @ map (\<lambda>page. page @ '' Interface'') (filter nonblank (take 2 pages))
            @ (case ts_frontend tech_stack of Some (first # _) \<Rightarrow> [first @ '' Layer''] | _ \<Rightarrow> [])
            @ (case ts_backend tech_stack of Some (first # _) \<Rightarrow> [first @ '' API''] | _ \<Rightarrow> [])
            @ (case ts_database tech_stack of
                 Some db \<Rightarrow> if nonblank db then [db] else []
               | None \<Rightarrow> [])
            @ (case key_features of
                 first # _ \<Rightarrow> if nonblank first then [first @ '' Module''] else []
               | [] \<Rightarrow> [])"
    by (simp only: p6_def p5_def p4_def p3_def p2_def p1_def append_assoc)
  have "fallback_components (JList []) project_name pages app_type tech_stack key_features =
        py_slice_to 6
          (if \<not> py_truthy (JList (map JStr p6))
           then (if project_name \<noteq> [] then JList [JStr (project_name @ '' System'')]
                 else JList [JStr ''Application''])
           else JList (map JStr p6))"
    unfolding fallback_components_def by (simp only: s1 s2 s3 s4 s5 s6 bind_err_Inr)
  also have "\<dots> = Inr (JList (map JStr
       (if p6 = []
        then (if project_name \<noteq> [] then [project_name @ '' System''] else [''Application''])
        else take 6 p6)))"
    by (simp add: take_map)
  also have "(if p6 = []
        then (if project_name \<noteq> [] then [project_name @ '' System''] else [''Application''])
        else take 6 p6) = fallback_labels project_name pages app_type tech_stack key_features"
    unfolding fallback_labels_def Let_def p6[symmetric] by (rule refl)
  finally show ?thesis .
qed


lemma llm_path_unusable:
  "llm_path None json_loads prompt components = FallThrough components"
  "generate_completion prompt = Inl e \<Longrightarrow>
     llm_path (Some generate_completion) json_loads prompt components = FallThrough components"
  "\<forall>s. json_loads s = None \<Longrightarrow>
     llm_path llm_service json_loads prompt components = FallThrough components"
  by (auto simp: llm_path_def Let_def split: option.splits sum.splits)

lemma llm_path_accepts:
  assumes "generate_completion prompt = Inr response"
    and "json_loads
           (if str_startswith (str_strip response) ''```''
            then str_join [newline] (butlast (tl (str_split newline (str_strip response))))
            else str_strip response) = Some (JList xs)"
    and "3 \<le> length xs"
  shows "llm_path (Some generate_completion) json_loads prompt components =
           Return (JList (take 6 xs))"
  using assms by (simp add: llm_path_def Let_def)

text \<open>
  Without a language model, when its call raises, or when \<open>json.loads\<close> raises, the
  deriver returns the fallback list of the specification; and a response that parses to a
  list of three items or more is returned, truncated to six.
\<close>

lemma deriver_without_llm:
  "extract_components_from_figma None json_loads figma_data ai_analysis =
     (case deriver_facts figma_data ai_analysis of
        (project_name, pages, app_type, tech_stack, key_features) \<Rightarrow>
          Inr (JList (map JStr
            (fallback_labels project_name pages app_type tech_stack key_features))))"
  by (simp add: extract_components_from_figma_def deriver_facts_def Let_def
      llm_path_unusable(1) fallback_components_list)

lemma deriver_llm_raises:
  "\<forall>prompt. \<exists>e. generate_completion prompt = Inl e \<Longrightarrow>
   extract_components_from_figma (Some generate_completion) json_loads figma_data ai_analysis =
     extract_components_from_figma None json_loads figma_data ai_analysis"
  by (metis (no_types, lifting) extract_components_from_figma_def llm_path_unusable(1,2))

lemma deriver_parse_failure:
  "\<forall>s. json_loads s = None \<Longrightarrow>
   extract_components_from_figma llm_service json_loads figma_data ai_analysis =
     extract_components_from_figma None json_loads figma_data ai_analysis"
  by (simp add: extract_components_from_figma_def llm_path_unusable(3) llm_path_unusable(1))

lemma deriver_accepts:
  assumes "\<forall>prompt. generate_completion prompt = Inr response"
    and "json_loads
           (if str_startswith (str_strip response) ''```''
            then str_join [newline] (butlast (tl (str_split newline (str_strip response))))
            else str_strip response) = Some (JList xs)"
    and "3 \<le> length xs"
  shows "extract_components_from_figma (Some generate_completion) json_loads figma_data
           ai_analysis = Inr (JList (take 6 xs))"
  using assms by (simp add: extract_components_from_figma_def llm_path_accepts Let_def)

lemma deriver_dashboard:
  "extract_components_from_figma None json_loads dashboard_figma dashboard_analysis =
     Inr (JList [JStr ''Dashboard User'', JStr ''Home Interface'', JStr ''Settings Interface''])"
  by (simp add: deriver_without_llm deriver_facts_def dashboard_figma_def dashboard_analysis_def
      canvas_pages_def get_default_def fallback_labels_def empty_tech_stack_def nonblank_def
      py_isspace_def)

subsection \<open>The fallback after a response that parses\<close>

text \<open>
  Claim C2 asks for exactly the fallback list whenever the language-model path is
  unavailable or falls through. With the facts of the example of the specification and
  no language model the result is the list of the example. When the model answers with
  the JSON list of one string \<open>Solo\<close> (fewer than three items, so control reaches the
  fallback), \<open>components\<close> is the list from the response and the fallback appends to
  it: the result starts with \<open>Solo\<close>.
\<close>

theorem deriver_short_llm_list_kept:
  \<open>extract_components_from_figma None
     (\<lambda>s. if s = ''["Solo"]'' then Some (JList [JStr ''Solo'']) else None)
     dashboard_figma dashboard_analysis =
   Inr (JList [JStr ''Dashboard User'', JStr ''Home Interface'', JStr ''Settings Interface''])
   \<and> extract_components_from_figma
     (Some (\<lambda>prompt. Inr ''["Solo"]''))
     (\<lambda>s. if s = ''["Solo"]'' then Some (JList [JStr ''Solo'']) else None)
     dashboard_figma dashboard_analysis =
   Inr (JList [JStr ''Solo'', JStr ''Dashboard User'', JStr ''Home Interface'',
               JStr ''Settings Interface''])\<close>
  by (simp add: extract_components_from_figma_def llm_path_def str_strip_def py_isspace_def
      str_startswith_def fallback_components_def dashboard_figma_def dashboard_analysis_def
      canvas_pages_def get_default_def bind_err_def empty_tech_stack_def Let_def)

text \<open>
  Claim C4 asks that a raising call and a malformed response both fall through to the
  fallback and that no error reaches the caller. When the call raises, the result is the
  fallback list. When the model answers with a JSON object, \<open>components\<close> is a
  dictionary when control reaches the fallback, and \<open>components.append\<close> raises
  AttributeError outside of every \<open>try\<close>.
\<close>

theorem deriver_llm_object_raises:
  \<open>extract_components_from_figma
     (Some (\<lambda>prompt. Inl (LLMError ''timeout'')))
     (\<lambda>s. if s = ''{"components": []}'' then Some (JDict [(''components'', JList [])]) else None)
     dashboard_figma dashboard_analysis =
   Inr (JList [JStr ''Dashboard User'', JStr ''Home Interface'', JStr ''Settings Interface''])
   \<and> extract_components_from_figma
     (Some (\<lambda>prompt. Inr ''{"components": []}''))
     (\<lambda>s. if s = ''{"components": []}'' then Some (JDict [(''components'', JList [])]) else None)
     dashboard_figma dashboard_analysis =
   Inl AttributeError\<close>
  by (simp add: extract_components_from_figma_def llm_path_def str_strip_def py_isspace_def
      str_startswith_def fallback_components_def dashboard_figma_def dashboard_analysis_def
      canvas_pages_def get_default_def bind_err_def empty_tech_stack_def Let_def)


end
